theory Spec2Isabelle
  imports Main "HOL-Library.Word" "HOL-Library.Signed_Division"
begin

section \<open>Values exchanged with the collaborators\<close>

text \<open>
  The embedding follows \<^verbatim>\<open>media/libstagefright/CameraSource.cpp\<close>. The counters are
  \<^verbatim>\<open>int32_t\<close> and the timestamps \<^verbatim>\<open>int64_t\<close>; they are words here, read as two's
  complement by \<open>sint\<close> and compared with \<open><s\<close>, and \<open>+\<close>, \<open>-\<close> wrap around.
\<close>

type_synonym int32_t = "32 word"
type_synonym int64_t = "64 word"

datatype status_t = OK | ERROR_UNSUPPORTED | UNKNOWN_ERROR

text \<open>
  What ends the process: a failed \<^verbatim>\<open>CHECK\<close>/\<^verbatim>\<open>CHECK_EQ\<close> (with the text of the check), a
  call through a NULL \<^verbatim>\<open>sp<Camera>\<close>, the integer division by zero in the constructor and
  the read of \<^verbatim>\<open>*begin()\<close> of an empty list.
\<close>

datatype fatal =
    CHECK_failed string
  | NullDereference
  | DivideByZero
  | EmptyListDereference

text \<open>
  An operation ends the process (\<open>Fatal\<close>), is parked on a condition variable
  (\<open>Waiting\<close>) or returns (\<open>Done\<close>).
\<close>

datatype 'a outcome = Fatal fatal | Waiting | Done 'a

definition bind :: "'a outcome \<Rightarrow> ('a \<Rightarrow> 'b outcome) \<Rightarrow> 'b outcome" where
  "bind m f = (case m of Fatal e \<Rightarrow> Fatal e | Waiting \<Rightarrow> Waiting | Done x \<Rightarrow> f x)"

text \<open>\<^verbatim>\<open>sp<IMemory>\<close>: the frame's address (\<^verbatim>\<open>pointer()\<close>) and its \<^verbatim>\<open>size()\<close>.\<close>

record IMemory =
  pointer :: nat
  size_m :: nat

text \<open>\<^verbatim>\<open>MetaData\<close>: a typed key-value store; only the keys this file uses.\<close>

datatype meta_key =
    kKeyMIMEType | kKeyColorFormat | kKeyWidth | kKeyHeight
  | kKeyStride | kKeySliceHeight | kKeyTime

datatype color_format =
    OMX_COLOR_FormatYUV422SemiPlanar
  | OMX_COLOR_FormatYUV420SemiPlanar
  | OMX_COLOR_FormatYCbYCr
  | OMX_COLOR_Format16bitRGB565

datatype meta_value =
    CString string
  | Int32 int32_t
  | Int64 int64_t
  | Color color_format

type_synonym MetaData = "meta_key \<rightharpoonup> meta_value"

definition findInt64 :: "MetaData \<Rightarrow> meta_key \<Rightarrow> int64_t option" where
  "findInt64 meta key = (case meta key of Some (Int64 v) \<Rightarrow> Some v | _ \<Rightarrow> None)"

text \<open>
  \<^verbatim>\<open>MediaBuffer\<close>, as far as \<^verbatim>\<open>read\<close> and \<^verbatim>\<open>signalBufferReturned\<close> touch it: \<^verbatim>\<open>data()\<close>,
  the size, whether an observer is set, the reference count and the meta data.
\<close>

record MediaBuffer =
  data :: nat
  size_b :: nat
  observer :: bool
  refcount :: nat
  meta_data :: MetaData

text \<open>\<^verbatim>\<open>ReadOptions\<close>: \<^verbatim>\<open>getSeekTo\<close> gives the seek time when a seek was requested.\<close>

record ReadOptions =
  getSeekTo :: "int64_t option"

text \<open>
  The camera is an external collaborator. Its answers are fields of this record: the
  preview size and frame rate and the video frame format of \<^verbatim>\<open>getParameters()\<close>, and
  the status \<^verbatim>\<open>startRecording()\<close> returns. The format string is kept as the
  \<^verbatim>\<open>CameraParameters::PIXEL_FORMAT_*\<close> constant it equals, or \<open>PIXEL_FORMAT_other\<close>.
\<close>

datatype pixel_format =
    PIXEL_FORMAT_YUV422SP
  | PIXEL_FORMAT_YUV420SP
  | PIXEL_FORMAT_YUV422I
  | PIXEL_FORMAT_RGB565
  | PIXEL_FORMAT_other

record Camera =
  previewWidth :: int32_t
  previewHeight :: int32_t
  previewFrameRate :: int32_t
  videoFrameFormat :: "pixel_format option"
  startRecording_status :: status_t

text \<open>
  The calls the core makes outwards, in the order it makes them: the camera's
  \<^verbatim>\<open>setListener\<close> (\<open>True\<close> for a listener, \<open>False\<close> for NULL), \<^verbatim>\<open>startRecording\<close>,
  \<^verbatim>\<open>stopRecording\<close> and \<^verbatim>\<open>releaseRecordingFrame\<close>, and the \<^verbatim>\<open>signal()\<close> of the two
  condition variables. Log lines and the save and restore of the calling identity
  change nothing here and are left out.
\<close>

datatype effect =
    Camera_setListener bool
  | Camera_startRecording
  | Camera_stopRecording
  | Camera_releaseRecordingFrame IMemory
  | FrameAvailable_signal
  | FrameComplete_signal

section \<open>The state of a CameraSource\<close>

text \<open>
  The member variables the constructor initialises and the functions use, with
  \<^verbatim>\<open>mStartTimeUs\<close>, which \<^verbatim>\<open>start\<close> sets, and the three lists. \<open>mCamera\<close> is \<open>None\<close>
  for a NULL \<^verbatim>\<open>sp<Camera>\<close>. \<open>effects\<close> records the calls made outwards.

  \<open>completing\<close> is no member variable: it is where the consumer's threads are. It
  counts the calls of \<^verbatim>\<open>signalBufferReturned\<close> that have erased their entry (line 267)
  and not yet counted it (line 268). That function takes no lock, so the other
  threads can act, and \<^verbatim>\<open>stop\<close> can test the list, between the two lines.
\<close>

record CameraSource =
  mCamera :: "Camera option"
  mMeta :: MetaData
  mStartTimeUs :: int64_t
  mNumFramesReceived :: int32_t
  mLastFrameTimestampUs :: int64_t
  mStarted :: bool
  mFirstFrameTimeUs :: int64_t
  mNumFramesEncoded :: int32_t
  mNumFramesDropped :: int32_t
  mNumGlitches :: int32_t
  mGlitchDurationThresholdUs :: int64_t
  mCollectStats :: bool
  mFramesReceived :: "IMemory list"
  mFramesBeingEncoded :: "IMemory list"
  mFrameTimes :: "int64_t list"
  effects :: "effect list"
  completing :: nat

definition emit :: "effect \<Rightarrow> CameraSource \<Rightarrow> CameraSource" where
  "emit e s = s\<lparr>effects := effects s @ [e]\<rparr>"

text \<open>The frames handed back to the camera so far, oldest first.\<close>

fun released :: "effect list \<Rightarrow> IMemory list" where
  "released [] = []"
| "released (Camera_releaseRecordingFrame f # es) = f # released es"
| "released (e # es) = released es"

section \<open>Construction\<close>

fun getColorFormat :: "pixel_format \<Rightarrow> color_format outcome" where
  "getColorFormat PIXEL_FORMAT_YUV422SP = Done OMX_COLOR_FormatYUV422SemiPlanar"
| "getColorFormat PIXEL_FORMAT_YUV420SP = Done OMX_COLOR_FormatYUV420SemiPlanar"
| "getColorFormat PIXEL_FORMAT_YUV422I = Done OMX_COLOR_FormatYCbYCr"
| "getColorFormat PIXEL_FORMAT_RGB565 = Done OMX_COLOR_Format16bitRGB565"
| "getColorFormat PIXEL_FORMAT_other = Fatal (CHECK_failed ''Unknown color format'')"

text \<open>
  \<^verbatim>\<open>int64_t glitchDurationUs = (1000000LL / frameRate)\<close>: the frame rate is widened to 64
  bits and the quotient truncates towards zero (\<open>sdiv\<close> on \<open>int\<close>); it always fits.
  A frame rate of 0 traps.
\<close>

definition glitchDurationUs :: "int32_t \<Rightarrow> int64_t outcome" where
  "glitchDurationUs frameRate =
     (if frameRate = 0 then Fatal DivideByZero
      else Done (word_of_int (1000000 sdiv sint frameRate)))"

text \<open>
  The constructor. \<^verbatim>\<open>mStartTimeUs\<close> is not in the initialiser list: its first value is
  whatever the memory holds, the argument \<open>indeterminate\<close>.
\<close>

definition CameraSource_ctor :: "Camera \<Rightarrow> int64_t \<Rightarrow> CameraSource outcome" where
  "CameraSource_ctor camera indeterminate =
     (let s = \<lparr> mCamera = Some camera,
                mMeta = Map.empty,
                mStartTimeUs = indeterminate,
                mNumFramesReceived = 0,
                mLastFrameTimestampUs = 0,
                mStarted = False,
                mFirstFrameTimeUs = 0,
                mNumFramesEncoded = 0,
                mNumFramesDropped = 0,
                mNumGlitches = 0,
                mGlitchDurationThresholdUs = 200000,
                mCollectStats = False,
                mFramesReceived = [],
                mFramesBeingEncoded = [],
                mFrameTimes = [],
                effects = [],
                completing = 0 \<rparr>
      in bind (glitchDurationUs (previewFrameRate camera)) (\<lambda>glitchDuration.
         let s1 = (if mGlitchDurationThresholdUs s <s glitchDuration
                   then s\<lparr>mGlitchDurationThresholdUs := glitchDuration\<rparr> else s)
         in (case videoFrameFormat camera of
               None \<Rightarrow> Fatal (CHECK_failed ''colorFormatStr != NULL'')
             | Some colorFormatStr \<Rightarrow>
                 bind (getColorFormat colorFormatStr) (\<lambda>colorFormat.
                   Done (s1\<lparr>mMeta :=
                     [kKeyMIMEType \<mapsto> CString ''video/raw'',
                      kKeyColorFormat \<mapsto> Color colorFormat,
                      kKeyWidth \<mapsto> Int32 (previewWidth camera),
                      kKeyHeight \<mapsto> Int32 (previewHeight camera),
                      kKeyStride \<mapsto> Int32 (previewWidth camera),
                      kKeySliceHeight \<mapsto> Int32 (previewHeight camera)]\<rparr>)))))"

section \<open>Start\<close>

definition startCameraRecording :: "CameraSource \<Rightarrow> CameraSource outcome" where
  "startCameraRecording s =
     (case mCamera s of
        None \<Rightarrow> Fatal NullDereference
      | Some camera \<Rightarrow>
          (if startRecording_status camera = OK
           then Done (emit Camera_startRecording s)
           else Fatal (CHECK_failed ''OK == mCamera->startRecording()'')))"

text \<open>
  \<^verbatim>\<open>start(meta)\<close>. \<open>record_stats\<close> is the outcome of the test of the system property
  \<^verbatim>\<open>media.stagefright.record-stats\<close>.
\<close>

definition start :: "MetaData option \<Rightarrow> bool \<Rightarrow> CameraSource \<Rightarrow> (status_t \<times> CameraSource) outcome" where
  "start meta record_stats s =
     (if mStarted s then Fatal (CHECK_failed ''!mStarted'')
      else
        let s1 = (if record_stats then s\<lparr>mCollectStats := True\<rparr> else s);
            s2 = s1\<lparr>mStartTimeUs := 0\<rparr>;
            s3 = (case meta of
                    None \<Rightarrow> s2
                  | Some m \<Rightarrow> (case findInt64 m kKeyTime of
                                 None \<Rightarrow> s2
                               | Some startTimeUs \<Rightarrow> s2\<lparr>mStartTimeUs := startTimeUs\<rparr>))
        in (case mCamera s3 of
              None \<Rightarrow> Fatal NullDereference
            | Some camera \<Rightarrow>
                bind (startCameraRecording (emit (Camera_setListener True) s3)) (\<lambda>s4.
                  Done (OK, s4\<lparr>mStarted := True\<rparr>))))"

section \<open>Releasing frames\<close>

definition releaseRecordingFrame :: "IMemory \<Rightarrow> CameraSource \<Rightarrow> CameraSource outcome" where
  "releaseRecordingFrame frame s =
     (case mCamera s of
        None \<Rightarrow> Fatal NullDereference
      | Some camera \<Rightarrow> Done (emit (Camera_releaseRecordingFrame frame) s))"

definition releaseOneRecordingFrame :: "IMemory \<Rightarrow> CameraSource \<Rightarrow> CameraSource outcome" where
  "releaseOneRecordingFrame frame s = releaseRecordingFrame frame s"

text \<open>
  \<^verbatim>\<open>releaseQueuedFrames\<close>: while \<^verbatim>\<open>mFramesReceived\<close> is not empty, release its first frame,
  erase it and count it as dropped. \<^verbatim>\<open>mFrameTimes\<close> is not touched.
\<close>

function releaseQueuedFrames :: "CameraSource \<Rightarrow> CameraSource outcome" where
  "releaseQueuedFrames s =
     (case mFramesReceived s of
        [] \<Rightarrow> Done s
      | it # rest \<Rightarrow>
          (case releaseRecordingFrame it s of
             Fatal e \<Rightarrow> Fatal e
           | Waiting \<Rightarrow> Waiting
           | Done s1 \<Rightarrow>
               releaseQueuedFrames
                 (s1\<lparr>mFramesReceived := rest,
                     mNumFramesDropped := mNumFramesDropped s1 + 1\<rparr>)))"
  by pat_completeness auto
termination
  by (relation "measure (\<lambda>s. length (mFramesReceived s))") auto

declare releaseQueuedFrames.simps [simp del]

section \<open>The consumer: read and signalBufferReturned\<close>

text \<open>
  \<^verbatim>\<open>signalBufferReturned\<close>, lines 263 to 267: walk \<^verbatim>\<open>mFramesBeingEncoded\<close> from its
  head (\<open>seen\<close> holds the entries already passed); at the first entry whose
  \<^verbatim>\<open>pointer()\<close> is the buffer's \<^verbatim>\<open>data()\<close> release that frame and erase that entry.
  With no such entry the final \<^verbatim>\<open>CHECK_EQ\<close> fails. The call is then between the
  erase and the count.
\<close>

fun signalBufferReturned_loop ::
  "IMemory list \<Rightarrow> IMemory list \<Rightarrow> MediaBuffer \<Rightarrow> CameraSource \<Rightarrow> CameraSource outcome" where
  "signalBufferReturned_loop seen [] buffer s =
     Fatal (CHECK_failed ''signalBufferReturned: bogus buffer'')"
| "signalBufferReturned_loop seen (it # rest) buffer s =
     (if pointer it = data buffer
      then bind (releaseOneRecordingFrame it s) (\<lambda>s1.
             Done (s1\<lparr>mFramesBeingEncoded := seen @ rest,
                      completing := completing s1 + 1\<rparr>))
      else signalBufferReturned_loop (seen @ [it]) rest buffer s)"

definition signalBufferReturned_erase :: "MediaBuffer \<Rightarrow> CameraSource \<Rightarrow> CameraSource outcome" where
  "signalBufferReturned_erase buffer s =
     signalBufferReturned_loop [] (mFramesBeingEncoded s) buffer s"

text \<open>
  Lines 268 to 272: count the frame as encoded and signal
  \<^verbatim>\<open>mFrameCompleteCondition\<close>. The buffer itself is detached from its observer and
  freed.
\<close>

definition signalBufferReturned_count :: "CameraSource \<Rightarrow> CameraSource" where
  "signalBufferReturned_count s =
     emit FrameComplete_signal
       (s\<lparr>mNumFramesEncoded := mNumFramesEncoded s + 1,
          completing := completing s - 1\<rparr>)"

text \<open>The whole call, when nothing else acts between its two parts.\<close>

definition signalBufferReturned :: "MediaBuffer \<Rightarrow> CameraSource \<Rightarrow> CameraSource outcome" where
  "signalBufferReturned buffer s =
     bind (signalBufferReturned_erase buffer s) (\<lambda>s1. Done (signalBufferReturned_count s1))"

text \<open>
  \<^verbatim>\<open>read\<close> gives the status, the buffer stored in \<^verbatim>\<open>*buffer\<close> (\<open>None\<close> for NULL) and
  the new state. While started with nothing queued the caller waits on
  \<^verbatim>\<open>mFrameAvailableCondition\<close>.
\<close>

definition read ::
  "ReadOptions option \<Rightarrow> CameraSource \<Rightarrow> (status_t \<times> MediaBuffer option \<times> CameraSource) outcome" where
  "read options s =
     (if (case options of None \<Rightarrow> False | Some opts \<Rightarrow> getSeekTo opts \<noteq> None)
      then Done (ERROR_UNSUPPORTED, None, s)
      else if mStarted s \<and> mFramesReceived s = [] then Waiting
      else if \<not> mStarted s then Done (OK, None, s)
      else
        let frame = hd (mFramesReceived s);
            s1 = s\<lparr>mFramesReceived := tl (mFramesReceived s)\<rparr>
        in (case mFrameTimes s1 of
              [] \<Rightarrow> Fatal EmptyListDereference
            | frameTime # restTimes \<Rightarrow>
                let s2 = s1\<lparr>mFrameTimes := restTimes\<rparr>;
                    s3 = s2\<lparr>mFramesBeingEncoded := mFramesBeingEncoded s2 @ [frame]\<rparr>
                in Done (OK,
                         Some \<lparr> data = pointer frame, size_b = size_m frame,
                                observer = True, refcount = 1,
                                meta_data = [kKeyTime \<mapsto> Int64 frameTime] \<rparr>,
                         s3)))"

section \<open>The capture callback\<close>

text \<open>Lines 327 to 333: the glitch check.\<close>

definition count_glitch :: "int64_t \<Rightarrow> CameraSource \<Rightarrow> CameraSource" where
  "count_glitch timestampUs s =
     (if 0 <s mNumFramesReceived s \<and>
         mGlitchDurationThresholdUs s <s timestampUs - mLastFrameTimestampUs s
      then s\<lparr>mNumGlitches := mNumGlitches s + 1\<rparr>
      else s)"

text \<open>Lines 356 to 363: count the frame, queue it with its adjusted time, signal.\<close>

definition queue_frame :: "int64_t \<Rightarrow> IMemory \<Rightarrow> CameraSource \<Rightarrow> CameraSource" where
  "queue_frame timestampUs frame s =
     (let s1 = s\<lparr>mNumFramesReceived := mNumFramesReceived s + 1\<rparr>;
          s2 = s1\<lparr>mFramesReceived := mFramesReceived s1 @ [frame]\<rparr>;
          timeUs = mStartTimeUs s2 + (timestampUs - mFirstFrameTimeUs s2);
          s3 = s2\<lparr>mFrameTimes := mFrameTimes s2 @ [timeUs]\<rparr>
      in emit FrameAvailable_signal s3)"

text \<open>
  \<^verbatim>\<open>dataCallbackTimestamp\<close>. \<open>skipCurrentFrame\<close> is the virtual hook a subclass
  overrides; the message type is not used by the body and is left out. The timestamp
  is in microseconds (the listener has divided the camera's nanoseconds by 1000).
\<close>

definition dataCallbackTimestamp ::
  "(int64_t \<Rightarrow> bool) \<Rightarrow> int64_t \<Rightarrow> IMemory \<Rightarrow> CameraSource \<Rightarrow> CameraSource outcome" where
  "dataCallbackTimestamp skipCurrentFrame timestampUs frame s =
     (if \<not> mStarted s
      then bind (releaseOneRecordingFrame frame s) (\<lambda>s1.
             Done (s1\<lparr>mNumFramesReceived := mNumFramesReceived s1 + 1,
                      mNumFramesDropped := mNumFramesDropped s1 + 1\<rparr>))
      else
        let s1 = count_glitch timestampUs s
        in if skipCurrentFrame timestampUs then releaseOneRecordingFrame frame s1
           else
             let s2 = s1\<lparr>mLastFrameTimestampUs := timestampUs\<rparr>
             in if mNumFramesReceived s2 = 0
                then
                  let s3 = s2\<lparr>mFirstFrameTimeUs := timestampUs\<rparr>
                  in if 0 <s mStartTimeUs s3
                     then
                       if timestampUs <s mStartTimeUs s3
                       then releaseOneRecordingFrame frame s3
                       else Done (queue_frame timestampUs frame
                                    (s3\<lparr>mStartTimeUs := timestampUs - mStartTimeUs s3\<rparr>))
                     else Done (queue_frame timestampUs frame s3)
                else Done (queue_frame timestampUs frame s2))"

section \<open>Stop\<close>

text \<open>
  What the capture thread and the consumer's threads do while another thread runs. The
  callback carries the answer of the \<^verbatim>\<open>skipCurrentFrame\<close> hook for its frame. A
  \<^verbatim>\<open>read\<close> that has to wait leaves the state as it is. The callback and \<^verbatim>\<open>read\<close>
  hold \<^verbatim>\<open>mLock\<close> and are one step each. \<^verbatim>\<open>signalBufferReturned\<close> holds no lock: it
  is one step when nothing comes between its two parts, and otherwise two steps, the
  erase of one call and, later, the count of a call that has erased (with no such
  call there is nothing to step). What runs between the release (266) and the erase
  (267) of a call finds the list as it was before the call, and is a step before it.
\<close>

datatype env_event =
    DataCallbackTimestamp int64_t bool IMemory
  | Read "ReadOptions option"
  | SignalBufferReturned MediaBuffer
  | SignalBufferReturned_erase MediaBuffer
  | SignalBufferReturned_count

fun env_step :: "env_event \<Rightarrow> CameraSource \<Rightarrow> CameraSource outcome" where
  "env_step (DataCallbackTimestamp timestampUs skip frame) s =
     dataCallbackTimestamp (\<lambda>_. skip) timestampUs frame s"
| "env_step (Read options) s =
     (case read options s of
        Fatal e \<Rightarrow> Fatal e
      | Waiting \<Rightarrow> Done s
      | Done (status, buffer, s1) \<Rightarrow> Done s1)"
| "env_step (SignalBufferReturned buffer) s = signalBufferReturned buffer s"
| "env_step (SignalBufferReturned_erase buffer) s = signalBufferReturned_erase buffer s"
| "env_step SignalBufferReturned_count s =
     (if completing s = 0 then Done s else Done (signalBufferReturned_count s))"

fun env_run :: "env_event list \<Rightarrow> CameraSource \<Rightarrow> CameraSource outcome" where
  "env_run [] s = Done s"
| "env_run (e # es) s = bind (env_step e s) (env_run es)"

text \<open>The steps that are whole calls: neither part of a \<^verbatim>\<open>signalBufferReturned\<close> cut in two.\<close>

fun undisturbed :: "env_event \<Rightarrow> bool" where
  "undisturbed (SignalBufferReturned_erase buffer) = False"
| "undisturbed SignalBufferReturned_count = False"
| "undisturbed e = True"

text \<open>
  Lines 211 to 218 of \<^verbatim>\<open>stop\<close>, run under the lock. They touch neither
  \<^verbatim>\<open>mFramesBeingEncoded\<close> nor \<^verbatim>\<open>mNumFramesEncoded\<close>, so a part of
  \<^verbatim>\<open>signalBufferReturned\<close> that runs among them leaves the state it would leave just
  before them.
\<close>

definition stop_enter :: "CameraSource \<Rightarrow> CameraSource outcome" where
  "stop_enter s =
     (let s1 = emit FrameAvailable_signal (s\<lparr>mStarted := False\<rparr>)
      in (case mCamera s1 of
            None \<Rightarrow> Fatal NullDereference
          | Some camera \<Rightarrow>
              releaseQueuedFrames
                (emit Camera_stopRecording (emit (Camera_setListener False) s1))))"

text \<open>
  Lines 219 to 223: while \<^verbatim>\<open>mFramesBeingEncoded\<close> is not empty, wait on
  \<^verbatim>\<open>mFrameCompleteCondition\<close>. Each wait gives up the lock; what the other threads do
  until the waiter tests the list again is one entry of \<open>schedule\<close>, and it may end
  between the two parts of a \<^verbatim>\<open>signalBufferReturned\<close>. When the schedule is used up
  with frames still being encoded, \<^verbatim>\<open>stop\<close> has not returned.
\<close>

fun stop_wait :: "env_event list list \<Rightarrow> CameraSource \<Rightarrow> CameraSource outcome" where
  "stop_wait schedule s =
     (if mFramesBeingEncoded s = [] then Done s
      else (case schedule of
              [] \<Rightarrow> Waiting
            | others # schedule' \<Rightarrow>
                (case env_run others s of
                   Fatal e \<Rightarrow> Fatal e
                 | Waiting \<Rightarrow> Waiting
                 | Done s1 \<Rightarrow> stop_wait schedule' s1)))"

declare stop_wait.simps [simp del]

text \<open>
  Lines 224 to 234: drop the camera, check the counters, return. The lock is held
  from the test that finds the list empty (219) to the check (233), so no callback and
  no \<^verbatim>\<open>read\<close> runs between them. A \<^verbatim>\<open>signalBufferReturned\<close> can: its erase then finds
  the list empty and fails its own \<^verbatim>\<open>CHECK_EQ\<close>; its count changes nothing that the
  test or lines 224 to 232 read, so a count between the test and the check leaves the
  check the state that a count just before the test leaves, and it is a step there:
  of the schedule's last entry, or of the run before \<^verbatim>\<open>stop\<close> when \<^verbatim>\<open>stop\<close> did not
  wait (the calls recorded in \<open>effects\<close> then come in another order). The state
  \<open>stop_exit\<close> is applied to is the state the check is made in.
\<close>

definition stop_exit :: "CameraSource \<Rightarrow> (status_t \<times> CameraSource) outcome" where
  "stop_exit s =
     (let s1 = s\<lparr>mCamera := None\<rparr>
      in if mNumFramesReceived s1 = mNumFramesEncoded s1 + mNumFramesDropped s1
         then Done (OK, s1)
         else Fatal (CHECK_failed ''mNumFramesReceived == mNumFramesEncoded + mNumFramesDropped''))"

definition stop :: "env_event list list \<Rightarrow> CameraSource \<Rightarrow> (status_t \<times> CameraSource) outcome" where
  "stop schedule s = bind (bind (stop_enter s) (stop_wait schedule)) stop_exit"

section \<open>Runs\<close>

text \<open>
  A run is what the threads do to one CameraSource, one step after the other:
  \<^verbatim>\<open>start\<close>, \<^verbatim>\<open>stop\<close> with the schedule of its waits, and the steps of the capture and
  consumer threads. \<^verbatim>\<open>start\<close> and \<^verbatim>\<open>stop\<close> are called by the one thread that owns the
  source, one after the other. \<^verbatim>\<open>start\<close> takes no lock: a frame that arrives after
  \<^verbatim>\<open>startRecording\<close> (line 198) and before \<^verbatim>\<open>mStarted\<close> is set (line 201) finds the
  source not started, as a callback before the \<open>Start\<close> of a run does.
\<close>

datatype event =
    Start "MetaData option" bool
  | Stop "env_event list list"
  | Env env_event

fun step :: "event \<Rightarrow> CameraSource \<Rightarrow> CameraSource outcome" where
  "step (Start meta record_stats) s = bind (start meta record_stats s) (\<lambda>(status, s1). Done s1)"
| "step (Stop schedule) s = bind (stop schedule s) (\<lambda>(status, s1). Done s1)"
| "step (Env e) s = env_step e s"

fun run :: "event list \<Rightarrow> CameraSource \<Rightarrow> CameraSource outcome" where
  "run [] s = Done s"
| "run (e # es) s = bind (step e s) (run es)"

definition reach :: "Camera \<Rightarrow> int64_t \<Rightarrow> event list \<Rightarrow> CameraSource outcome" where
  "reach camera indeterminate events = bind (CameraSource_ctor camera indeterminate) (run events)"

text \<open>
  The states inside a \<^verbatim>\<open>stop\<close> that has not returned: a run, then lines 211 to 218,
  then what the other threads do while \<^verbatim>\<open>stop\<close> waits.
\<close>

definition during_stop ::
  "Camera \<Rightarrow> int64_t \<Rightarrow> event list \<Rightarrow> env_event list \<Rightarrow> CameraSource outcome" where
  "during_stop camera indeterminate events others =
     bind (reach camera indeterminate events) (\<lambda>s. bind (stop_enter s) (env_run others))"

section \<open>Invariants of runs\<close>

text \<open>
  Every frame received is encoded, dropped, queued, being encoded, or erased by a
  \<^verbatim>\<open>signalBufferReturned\<close> that has not counted it yet; the camera is still held while
  the source is started or frames are being encoded; the glitch threshold stays what
  the constructor made it.
\<close>

definition accounted :: "int64_t \<Rightarrow> CameraSource \<Rightarrow> bool" where
  "accounted threshold s \<longleftrightarrow>
     mNumFramesReceived s =
       mNumFramesEncoded s + mNumFramesDropped s
       + of_nat (length (mFramesReceived s)) + of_nat (length (mFramesBeingEncoded s))
       + of_nat (completing s)
     \<and> (mCamera s = None \<longrightarrow> \<not> mStarted s \<and> mFramesBeingEncoded s = [])
     \<and> mGlitchDurationThresholdUs s = threshold"

text \<open>After \<^verbatim>\<open>stop\<close> has flipped the state and emptied the queue.\<close>

definition halted :: "CameraSource \<Rightarrow> bool" where
  "halted s \<longleftrightarrow> \<not> mStarted s \<and> mFramesReceived s = []"

text \<open>What a call of the capture or consumer thread can end the process with.\<close>

definition env_fatal :: "fatal set" where
  "env_fatal = {NullDereference, EmptyListDereference,
                CHECK_failed ''signalBufferReturned: bogus buffer''}"

section \<open>A concrete camera and concrete frames\<close>

definition demo_camera :: Camera where
  "demo_camera =
     \<lparr> previewWidth = 640, previewHeight = 480, previewFrameRate = 30,
       videoFrameFormat = Some PIXEL_FORMAT_YUV420SP, startRecording_status = OK \<rparr>"

definition broken_camera :: Camera where
  "broken_camera = demo_camera\<lparr>startRecording_status := UNKNOWN_ERROR\<rparr>"

definition frame1 :: IMemory where "frame1 = \<lparr> pointer = 4096, size_m = 460800 \<rparr>"
definition frame2 :: IMemory where "frame2 = \<lparr> pointer = 8192, size_m = 460800 \<rparr>"
definition frame3 :: IMemory where "frame3 = \<lparr> pointer = 12288, size_m = 460800 \<rparr>"

text \<open>The buffer the consumer hands back for a frame it was given.\<close>

definition buffer_of :: "IMemory \<Rightarrow> MediaBuffer" where
  "buffer_of frame =
     \<lparr> data = pointer frame, size_b = size_m frame, observer = True, refcount = 1,
       meta_data = Map.empty \<rparr>"

text \<open>The source right after \<open>CameraSource_ctor demo_camera 0\<close>.\<close>

definition fresh :: CameraSource where
  "fresh =
     \<lparr> mCamera = Some demo_camera,
       mMeta = [kKeyMIMEType \<mapsto> CString ''video/raw'',
                kKeyColorFormat \<mapsto> Color OMX_COLOR_FormatYUV420SemiPlanar,
                kKeyWidth \<mapsto> Int32 640,
                kKeyHeight \<mapsto> Int32 480,
                kKeyStride \<mapsto> Int32 640,
                kKeySliceHeight \<mapsto> Int32 480],
       mStartTimeUs = 0,
       mNumFramesReceived = 0,
       mLastFrameTimestampUs = 0,
       mStarted = False,
       mFirstFrameTimeUs = 0,
       mNumFramesEncoded = 0,
       mNumFramesDropped = 0,
       mNumGlitches = 0,
       mGlitchDurationThresholdUs = 200000,
       mCollectStats = False,
       mFramesReceived = [],
       mFramesBeingEncoded = [],
       mFrameTimes = [],
       effects = [],
       completing = 0 \<rparr>"

text \<open>
  A run that starts, receives two frames and hands the first to the consumer, and the
  state it ends in.
\<close>

definition two_frames_one_read :: "event list" where
  "two_frames_one_read =
     [Start None False,
      Env (DataCallbackTimestamp 0 False frame1),
      Env (DataCallbackTimestamp 50000 False frame2),
      Env (Read None)]"

definition recording :: CameraSource where
  "recording =
     fresh\<lparr> mStarted := True,
            mNumFramesReceived := 2,
            mLastFrameTimestampUs := 50000,
            mFramesReceived := [frame2],
            mFramesBeingEncoded := [frame1],
            mFrameTimes := [50000],
            effects := [Camera_setListener True, Camera_startRecording,
                        FrameAvailable_signal, FrameAvailable_signal] \<rparr>"

text \<open>A state whose counters do not add up, before and after \<^verbatim>\<open>stop\<close> has entered.\<close>

definition miscounted :: CameraSource where
  "miscounted = fresh\<lparr>mNumFramesReceived := 5\<rparr>"

definition miscounted_halted :: CameraSource where
  "miscounted_halted =
     miscounted\<lparr>effects := [FrameAvailable_signal, Camera_setListener False,
                               Camera_stopRecording]\<rparr>"

text \<open>The source started with the start time 100, and the run of the scenario.\<close>

definition started_at_100 :: CameraSource where
  "started_at_100 =
     fresh\<lparr> mStartTimeUs := 100, mStarted := True,
            effects := [Camera_setListener True, Camera_startRecording] \<rparr>"


text \<open>Runs that stop, and a frame that arrives after \<^verbatim>\<open>stop\<close> has returned.\<close>

definition start_stop_then_frame :: "event list" where
  "start_stop_then_frame =
     [Start None False, Stop [], Env (DataCallbackTimestamp 0 False frame1)]"

definition one_frame_then_stop :: "event list" where
  "one_frame_then_stop =
     [Start None False, Env (DataCallbackTimestamp 0 False frame1), Stop []]"

text \<open>A source whose camera refuses to record.\<close>

definition unstartable :: CameraSource where
  "unstartable = fresh\<lparr>mCamera := Some broken_camera\<rparr>"

text \<open>A read with a seek request; a source that is no longer started with a frame queued.\<close>

definition seek_to_zero :: ReadOptions where
  "seek_to_zero = \<lparr> getSeekTo = Some 0 \<rparr>"

definition stopped_with_queue :: CameraSource where
  "stopped_with_queue = recording\<lparr>mStarted := False\<rparr>"

text \<open>
  The state inside a \<^verbatim>\<open>stop\<close> called after that run: the queued frame dropped, the
  frame handed to the consumer still being encoded.
\<close>

definition draining :: CameraSource where
  "draining =
     recording\<lparr> mStarted := False,
                mNumFramesDropped := 1,
                mFramesReceived := [],
                effects := [Camera_setListener True, Camera_startRecording,
                            FrameAvailable_signal, FrameAvailable_signal,
                            FrameAvailable_signal, Camera_setListener False,
                            Camera_stopRecording, Camera_releaseRecordingFrame frame2] \<rparr>"


text \<open>
  Three frames 150000 us apart, the second and third dropped by the hook, and the same
  frames with none dropped.
\<close>

definition skips_after_first :: "event list" where
  "skips_after_first =
     [Start None False,
      Env (DataCallbackTimestamp 0 False frame1),
      Env (DataCallbackTimestamp 150000 True frame2),
      Env (DataCallbackTimestamp 300000 True frame3)]"

definition same_without_skips :: "event list" where
  "same_without_skips =
     [Start None False,
      Env (DataCallbackTimestamp 0 False frame1),
      Env (DataCallbackTimestamp 150000 False frame2),
      Env (DataCallbackTimestamp 300000 False frame3)]"

section \<open>Basic facts\<close>

lemma bind_simps [simp]:
  "bind (Done x) f = f x"
  "bind (Fatal e) f = Fatal e"
  "bind Waiting f = Waiting"
  by (simp_all add: bind_def)

lemma bind_eq_Done: "bind m f = Done y \<longleftrightarrow> (\<exists>x. m = Done x \<and> f x = Done y)"
  by (cases m) simp_all

lemma releaseRecordingFrame_Some:
  "mCamera s = Some camera \<Longrightarrow>
   releaseRecordingFrame frame s = Done (emit (Camera_releaseRecordingFrame frame) s)"
  by (simp add: releaseRecordingFrame_def)

lemma releaseRecordingFrame_None:
  "mCamera s = None \<Longrightarrow> releaseRecordingFrame frame s = Fatal NullDereference"
  by (simp add: releaseRecordingFrame_def)

lemma releaseRecordingFrame_Done:
  "releaseRecordingFrame frame s = Done s' \<longleftrightarrow>
   mCamera s \<noteq> None \<and> s' = emit (Camera_releaseRecordingFrame frame) s"
  by (auto simp: releaseRecordingFrame_def split: option.splits)

lemma emit_fields [simp]:
  "mCamera (emit e s) = mCamera s"
  "mStartTimeUs (emit e s) = mStartTimeUs s"
  "mNumFramesReceived (emit e s) = mNumFramesReceived s"
  "mLastFrameTimestampUs (emit e s) = mLastFrameTimestampUs s"
  "mStarted (emit e s) = mStarted s"
  "mFirstFrameTimeUs (emit e s) = mFirstFrameTimeUs s"
  "mNumFramesEncoded (emit e s) = mNumFramesEncoded s"
  "mNumFramesDropped (emit e s) = mNumFramesDropped s"
  "mNumGlitches (emit e s) = mNumGlitches s"
  "mGlitchDurationThresholdUs (emit e s) = mGlitchDurationThresholdUs s"
  "mCollectStats (emit e s) = mCollectStats s"
  "mFramesReceived (emit e s) = mFramesReceived s"
  "mFramesBeingEncoded (emit e s) = mFramesBeingEncoded s"
  "mFrameTimes (emit e s) = mFrameTimes s"
  "effects (emit e s) = effects s @ [e]"
  "completing (emit e s) = completing s"
  by (simp_all add: emit_def)

lemma released_append [simp]: "released (es @ es') = released es @ released es'"
  by (induction es rule: released.induct) simp_all

text \<open>releaseQueuedFrames in closed form.\<close>

lemma releaseQueuedFrames_closed:
  "mCamera s = Some camera \<Longrightarrow>
   releaseQueuedFrames s =
     Done (s\<lparr>mFramesReceived := [],
             mNumFramesDropped := mNumFramesDropped s + of_nat (length (mFramesReceived s)),
             effects := effects s @ map Camera_releaseRecordingFrame (mFramesReceived s)\<rparr>)"
proof (induction "mFramesReceived s" arbitrary: s)
  case Nil
  then show ?case
    by (subst releaseQueuedFrames.simps) simp
next
  case (Cons it rest)
  let ?s1 = "emit (Camera_releaseRecordingFrame it) s
               \<lparr>mFramesReceived := rest, mNumFramesDropped := mNumFramesDropped s + 1\<rparr>"
  have "rest = mFramesReceived ?s1" by simp
  moreover have "mCamera ?s1 = Some camera" using Cons.prems by simp
  ultimately have ih: "releaseQueuedFrames ?s1 =
     Done (?s1\<lparr>mFramesReceived := [],
             mNumFramesDropped := mNumFramesDropped ?s1 + of_nat (length (mFramesReceived ?s1)),
             effects := effects ?s1 @ map Camera_releaseRecordingFrame (mFramesReceived ?s1)\<rparr>)"
    by (rule Cons.hyps(1))
  have "releaseQueuedFrames s = releaseQueuedFrames ?s1"
    using Cons.hyps(2) [symmetric] Cons.prems
    by (subst releaseQueuedFrames.simps) (simp add: releaseRecordingFrame_Some)
  also note ih
  finally show ?case
    using Cons.hyps(2) [symmetric] by (simp add: emit_def)
qed

lemma releaseQueuedFrames_None:
  "mCamera s = None \<Longrightarrow>
   releaseQueuedFrames s = (if mFramesReceived s = [] then Done s else Fatal NullDereference)"
  by (subst releaseQueuedFrames.simps) (simp add: releaseRecordingFrame_None split: list.splits)

text \<open>The four ways the callback returns.\<close>

lemma dataCallbackTimestamp_Done:
  assumes "dataCallbackTimestamp skip ts frame s = Done s'"
  shows "(\<not> mStarted s \<and> mCamera s \<noteq> None \<and>
            s' = (emit (Camera_releaseRecordingFrame frame) s)
                   \<lparr>mNumFramesReceived := mNumFramesReceived s + 1,
                    mNumFramesDropped := mNumFramesDropped s + 1\<rparr>)
       \<or> (mStarted s \<and> skip ts \<and> mCamera s \<noteq> None \<and>
            s' = emit (Camera_releaseRecordingFrame frame) (count_glitch ts s))
       \<or> (mStarted s \<and> \<not> skip ts \<and> mNumFramesReceived s = 0 \<and> 0 <s mStartTimeUs s \<and>
            ts <s mStartTimeUs s \<and> mCamera s \<noteq> None \<and>
            s' = emit (Camera_releaseRecordingFrame frame)
                   ((count_glitch ts s)\<lparr>mLastFrameTimestampUs := ts, mFirstFrameTimeUs := ts\<rparr>))
       \<or> (mStarted s \<and> \<not> skip ts \<and>
            (\<exists>u. s' = queue_frame ts frame u \<and>
                 mNumFramesReceived u = mNumFramesReceived s \<and>
                 mNumFramesEncoded u = mNumFramesEncoded s \<and>
                 mNumFramesDropped u = mNumFramesDropped s \<and>
                 mFramesReceived u = mFramesReceived s \<and>
                 mFramesBeingEncoded u = mFramesBeingEncoded s \<and>
                 mFrameTimes u = mFrameTimes s \<and>
                 mCamera u = mCamera s \<and> mStarted u = mStarted s \<and>
                 mGlitchDurationThresholdUs u = mGlitchDurationThresholdUs s \<and>
                 effects u = effects s \<and> completing u = completing s))"
proof (cases "mStarted s")
  case False
  with assms show ?thesis
    by (auto simp: dataCallbackTimestamp_def releaseOneRecordingFrame_def
        releaseRecordingFrame_Done bind_eq_Done)
next
  case True
  have cg [simp]: "mNumFramesReceived (count_glitch ts s) = mNumFramesReceived s"
    "mStartTimeUs (count_glitch ts s) = mStartTimeUs s"
    "mCamera (count_glitch ts s) = mCamera s"
    "mNumFramesEncoded (count_glitch ts s) = mNumFramesEncoded s"
    "mNumFramesDropped (count_glitch ts s) = mNumFramesDropped s"
    "mFramesReceived (count_glitch ts s) = mFramesReceived s"
    "mFramesBeingEncoded (count_glitch ts s) = mFramesBeingEncoded s"
    "mFrameTimes (count_glitch ts s) = mFrameTimes s"
    "mStarted (count_glitch ts s) = mStarted s"
    "mGlitchDurationThresholdUs (count_glitch ts s) = mGlitchDurationThresholdUs s"
    "effects (count_glitch ts s) = effects s"
    "completing (count_glitch ts s) = completing s"
    by (simp_all add: count_glitch_def)
  show ?thesis
  proof (cases "skip ts")
    case skip: True
    with True assms show ?thesis
      by (simp add: dataCallbackTimestamp_def releaseOneRecordingFrame_def
          releaseRecordingFrame_Done Let_def)
  next
    case noskip: False
    show ?thesis
    proof (cases "mNumFramesReceived s = 0 \<and> 0 <s mStartTimeUs s \<and> ts <s mStartTimeUs s")
      case drop: True
      with True noskip assms show ?thesis
        by (simp add: dataCallbackTimestamp_def releaseOneRecordingFrame_def
            releaseRecordingFrame_Done Let_def)
    next
      case False
      define u where "u =
         (if mNumFramesReceived s = 0
          then if 0 <s mStartTimeUs s
               then (count_glitch ts s)\<lparr>mLastFrameTimestampUs := ts, mFirstFrameTimeUs := ts,
                      mStartTimeUs := ts - mStartTimeUs s\<rparr>
               else (count_glitch ts s)\<lparr>mLastFrameTimestampUs := ts, mFirstFrameTimeUs := ts\<rparr>
          else (count_glitch ts s)\<lparr>mLastFrameTimestampUs := ts\<rparr>)"
      from False True noskip assms have "s' = queue_frame ts frame u"
        by (simp add: dataCallbackTimestamp_def Let_def u_def split: if_splits)
      moreover have "mNumFramesReceived u = mNumFramesReceived s \<and>
                 mNumFramesEncoded u = mNumFramesEncoded s \<and>
                 mNumFramesDropped u = mNumFramesDropped s \<and>
                 mFramesReceived u = mFramesReceived s \<and>
                 mFramesBeingEncoded u = mFramesBeingEncoded s \<and>
                 mFrameTimes u = mFrameTimes s \<and>
                 mCamera u = mCamera s \<and> mStarted u = mStarted s \<and>
                 mGlitchDurationThresholdUs u = mGlitchDurationThresholdUs s \<and>
                 effects u = effects s \<and> completing u = completing s"
        by (simp add: u_def)
      ultimately have "\<exists>u. s' = queue_frame ts frame u \<and>
                 mNumFramesReceived u = mNumFramesReceived s \<and>
                 mNumFramesEncoded u = mNumFramesEncoded s \<and>
                 mNumFramesDropped u = mNumFramesDropped s \<and>
                 mFramesReceived u = mFramesReceived s \<and>
                 mFramesBeingEncoded u = mFramesBeingEncoded s \<and>
                 mFrameTimes u = mFrameTimes s \<and>
                 mCamera u = mCamera s \<and> mStarted u = mStarted s \<and>
                 mGlitchDurationThresholdUs u = mGlitchDurationThresholdUs s \<and>
                 effects u = effects s \<and> completing u = completing s"
        by blast
      with True noskip show ?thesis by blast
    qed
  qed
qed

lemma queue_frame_fields [simp]:
  "mCamera (queue_frame ts f u) = mCamera u"
  "mStartTimeUs (queue_frame ts f u) = mStartTimeUs u"
  "mNumFramesReceived (queue_frame ts f u) = mNumFramesReceived u + 1"
  "mLastFrameTimestampUs (queue_frame ts f u) = mLastFrameTimestampUs u"
  "mStarted (queue_frame ts f u) = mStarted u"
  "mFirstFrameTimeUs (queue_frame ts f u) = mFirstFrameTimeUs u"
  "mNumFramesEncoded (queue_frame ts f u) = mNumFramesEncoded u"
  "mNumFramesDropped (queue_frame ts f u) = mNumFramesDropped u"
  "mNumGlitches (queue_frame ts f u) = mNumGlitches u"
  "mGlitchDurationThresholdUs (queue_frame ts f u) = mGlitchDurationThresholdUs u"
  "mFramesReceived (queue_frame ts f u) = mFramesReceived u @ [f]"
  "mFramesBeingEncoded (queue_frame ts f u) = mFramesBeingEncoded u"
  "mFrameTimes (queue_frame ts f u) =
     mFrameTimes u @ [mStartTimeUs u + (ts - mFirstFrameTimeUs u)]"
  "effects (queue_frame ts f u) = effects u @ [FrameAvailable_signal]"
  "completing (queue_frame ts f u) = completing u"
  by (simp_all add: queue_frame_def Let_def)

lemma count_glitch_fields [simp]:
  "mCamera (count_glitch ts s) = mCamera s"
  "mStartTimeUs (count_glitch ts s) = mStartTimeUs s"
  "mNumFramesReceived (count_glitch ts s) = mNumFramesReceived s"
  "mLastFrameTimestampUs (count_glitch ts s) = mLastFrameTimestampUs s"
  "mStarted (count_glitch ts s) = mStarted s"
  "mFirstFrameTimeUs (count_glitch ts s) = mFirstFrameTimeUs s"
  "mNumFramesEncoded (count_glitch ts s) = mNumFramesEncoded s"
  "mNumFramesDropped (count_glitch ts s) = mNumFramesDropped s"
  "mGlitchDurationThresholdUs (count_glitch ts s) = mGlitchDurationThresholdUs s"
  "mFramesReceived (count_glitch ts s) = mFramesReceived s"
  "mFramesBeingEncoded (count_glitch ts s) = mFramesBeingEncoded s"
  "mFrameTimes (count_glitch ts s) = mFrameTimes s"
  "effects (count_glitch ts s) = effects s"
  "completing (count_glitch ts s) = completing s"
  by (simp_all add: count_glitch_def)

lemma dataCallbackTimestamp_accounted:
  assumes "accounted thr s" and "dataCallbackTimestamp skip ts frame s = Done s'"
  shows "accounted thr s'"
  using dataCallbackTimestamp_Done [OF assms(2)] assms(1)
  by (elim disjE conjE exE) (auto simp: accounted_def)

lemma dataCallbackTimestamp_halted:
  assumes "halted s" and "dataCallbackTimestamp skip ts frame s = Done s'"
  shows "halted s' \<and> mFramesBeingEncoded s' = mFramesBeingEncoded s"
  using dataCallbackTimestamp_Done [OF assms(2)] assms(1)
  by (elim disjE conjE exE) (auto simp: halted_def)

lemma read_Done:
  assumes "read options s = Done (status, buffer, s')"
  shows "(s' = s \<and> buffer = None)
       \<or> (mStarted s \<and> status = OK \<and>
           (\<exists>frame frames frameTime restTimes.
              mFramesReceived s = frame # frames \<and> mFrameTimes s = frameTime # restTimes \<and>
              s' = s\<lparr>mFramesReceived := frames, mFrameTimes := restTimes,
                     mFramesBeingEncoded := mFramesBeingEncoded s @ [frame]\<rparr>))"
  using assms
  by (cases "mFramesReceived s")
     (auto simp: read_def Let_def split: if_splits list.splits option.splits)

lemma read_accounted:
  assumes "accounted thr s" and "read options s = Done (status, buffer, s')"
  shows "accounted thr s'"
  using read_Done [OF assms(2)] assms(1)
  by (elim disjE conjE exE) (auto simp: accounted_def)

lemma read_halted:
  assumes "halted s" and "read options s = Done (status, buffer, s')"
  shows "s' = s"
  using read_Done [OF assms(2)] assms(1)
  by (auto simp: halted_def)

lemma signalBufferReturned_loop_Done:
  assumes "signalBufferReturned_loop seen xs buffer s = Done s'"
  shows "\<exists>pre it post. xs = pre @ it # post \<and> pointer it = data buffer \<and>
           (\<forall>f \<in> set pre. pointer f \<noteq> data buffer) \<and> mCamera s \<noteq> None \<and>
           s' = emit (Camera_releaseRecordingFrame it) s
                  \<lparr>mFramesBeingEncoded := seen @ pre @ post,
                   completing := completing s + 1\<rparr>"
  using assms
proof (induction xs arbitrary: seen)
  case Nil
  then show ?case by simp
next
  case (Cons x xs)
  show ?case
  proof (cases "pointer x = data buffer")
    case True
    with Cons.prems have "mCamera s \<noteq> None \<and>
        s' = emit (Camera_releaseRecordingFrame x) s
               \<lparr>mFramesBeingEncoded := seen @ [] @ xs,
                completing := completing s + 1\<rparr>"
      by (auto simp: bind_eq_Done releaseOneRecordingFrame_def releaseRecordingFrame_Done)
    with True show ?thesis
      by (intro exI [of _ "[]"] exI [of _ x] exI [of _ xs]) simp
  next
    case False
    with Cons.prems have "signalBufferReturned_loop (seen @ [x]) xs buffer s = Done s'"
      by simp
    from Cons.IH [OF this] obtain pre it post where
      "xs = pre @ it # post" "pointer it = data buffer"
      "\<forall>f \<in> set pre. pointer f \<noteq> data buffer" "mCamera s \<noteq> None"
      "s' = emit (Camera_releaseRecordingFrame it) s
              \<lparr>mFramesBeingEncoded := (seen @ [x]) @ pre @ post,
               completing := completing s + 1\<rparr>"
      by blast
    with False show ?thesis
      by (intro exI [of _ "x # pre"] exI [of _ it] exI [of _ post]) simp
  qed
qed

lemma signalBufferReturned_erase_Done:
  assumes "signalBufferReturned_erase buffer s = Done s'"
  shows "\<exists>pre it post. mFramesBeingEncoded s = pre @ it # post \<and> pointer it = data buffer \<and>
           (\<forall>f \<in> set pre. pointer f \<noteq> data buffer) \<and> mCamera s \<noteq> None \<and>
           s' = emit (Camera_releaseRecordingFrame it) s
                  \<lparr>mFramesBeingEncoded := pre @ post,
                   completing := completing s + 1\<rparr>"
  using signalBufferReturned_loop_Done [of "[]" "mFramesBeingEncoded s" buffer s s'] assms
  by (simp add: signalBufferReturned_erase_def)

lemma signalBufferReturned_erase_accounted:
  assumes "accounted thr s" and "signalBufferReturned_erase buffer s = Done s'"
  shows "accounted thr s'"
  using signalBufferReturned_erase_Done [OF assms(2)] assms(1)
  by (auto simp: accounted_def)

lemma signalBufferReturned_erase_halted:
  assumes "halted s" and "signalBufferReturned_erase buffer s = Done s'"
  shows "halted s'"
  using signalBufferReturned_erase_Done [OF assms(2)] assms(1)
  by (auto simp: halted_def)

lemma signalBufferReturned_count_accounted:
  assumes "accounted thr s" and "completing s \<noteq> 0"
  shows "accounted thr (signalBufferReturned_count s)"
proof -
  from assms(2) have "(of_nat (completing s) :: int32_t) = of_nat (completing s - 1) + 1"
    by (cases "completing s") simp_all
  with assms(1) show ?thesis
    by (simp add: accounted_def signalBufferReturned_count_def)
qed

lemma signalBufferReturned_count_halted:
  "halted s \<Longrightarrow> halted (signalBufferReturned_count s)"
  by (simp add: halted_def signalBufferReturned_count_def)

lemma signalBufferReturned_accounted:
  assumes "accounted thr s" and "signalBufferReturned buffer s = Done s'"
  shows "accounted thr s'"
proof -
  from assms(2) obtain s1 where s1: "signalBufferReturned_erase buffer s = Done s1"
    "s' = signalBufferReturned_count s1"
    by (auto simp: signalBufferReturned_def bind_eq_Done)
  from signalBufferReturned_erase_Done [OF s1(1)] have "completing s1 \<noteq> 0" by auto
  with signalBufferReturned_erase_accounted [OF assms(1) s1(1)] s1(2) show ?thesis
    by (simp add: signalBufferReturned_count_accounted)
qed

lemma signalBufferReturned_halted:
  assumes "halted s" and "signalBufferReturned buffer s = Done s'"
  shows "halted s'"
  using assms
  by (auto simp: signalBufferReturned_def bind_eq_Done
      dest: signalBufferReturned_erase_halted intro: signalBufferReturned_count_halted)

lemma env_step_accounted:
  assumes "accounted thr s" and "env_step e s = Done s'"
  shows "accounted thr s'"
proof (cases e)
  case (DataCallbackTimestamp ts skip frame)
  with assms show ?thesis by (auto dest: dataCallbackTimestamp_accounted)
next
  case (Read options)
  with assms show ?thesis
    by (auto split: outcome.splits dest: read_accounted)
next
  case (SignalBufferReturned buffer)
  with assms show ?thesis by (auto dest: signalBufferReturned_accounted)
next
  case (SignalBufferReturned_erase buffer)
  with assms show ?thesis by (auto dest: signalBufferReturned_erase_accounted)
next
  case SignalBufferReturned_count
  with assms show ?thesis
    by (auto split: if_splits intro: signalBufferReturned_count_accounted)
qed

lemma env_step_halted:
  assumes "halted s" and "env_step e s = Done s'"
  shows "halted s'"
proof (cases e)
  case (DataCallbackTimestamp ts skip frame)
  with assms show ?thesis by (auto dest: dataCallbackTimestamp_halted)
next
  case (Read options)
  with assms show ?thesis
    by (auto split: outcome.splits dest: read_halted)
next
  case (SignalBufferReturned buffer)
  with assms show ?thesis by (auto dest: signalBufferReturned_halted)
next
  case (SignalBufferReturned_erase buffer)
  with assms show ?thesis by (auto dest: signalBufferReturned_erase_halted)
next
  case SignalBufferReturned_count
  with assms show ?thesis
    by (auto split: if_splits intro: signalBufferReturned_count_halted)
qed

lemma env_run_accounted:
  "accounted thr s \<Longrightarrow> env_run es s = Done s' \<Longrightarrow> accounted thr s'"
  by (induction es arbitrary: s) (auto simp: bind_eq_Done dest: env_step_accounted)

lemma env_run_halted:
  "halted s \<Longrightarrow> env_run es s = Done s' \<Longrightarrow> halted s'"
  by (induction es arbitrary: s) (auto simp: bind_eq_Done dest: env_step_halted)

lemma stop_wait_Done:
  "accounted thr s \<Longrightarrow> halted s \<Longrightarrow> stop_wait schedule s = Done s' \<Longrightarrow>
   accounted thr s' \<and> halted s' \<and> mFramesBeingEncoded s' = []"
proof (induction schedule arbitrary: s)
  case Nil
  then show ?case
    using stop_wait.simps [of "[]" s] by (simp split: if_splits)
next
  case (Cons others schedule)
  show ?case
  proof (cases "mFramesBeingEncoded s = []")
    case True
    with Cons.prems show ?thesis
      using stop_wait.simps [of "others # schedule" s] by simp
  next
    case False
    with Cons.prems(3) obtain s1 where
      s1: "env_run others s = Done s1" "stop_wait schedule s1 = Done s'"
      using stop_wait.simps [of "others # schedule" s] by (auto split: outcome.splits)
    from Cons.prems(1,2) s1(1) have "accounted thr s1" "halted s1"
      by (auto dest: env_run_accounted env_run_halted)
    then show ?thesis using s1(2) by (rule Cons.IH)
  qed
qed

lemma stop_enter_Done:
  assumes "accounted thr s" and "stop_enter s = Done s'"
  shows "accounted thr s' \<and> halted s' \<and> mCamera s' \<noteq> None"
proof -
  from assms(2) obtain camera where cam: "mCamera s = Some camera"
    by (auto simp: stop_enter_def Let_def split: option.splits)
  let ?s1 = "emit Camera_stopRecording (emit (Camera_setListener False)
               (emit FrameAvailable_signal (s\<lparr>mStarted := False\<rparr>)))"
  have "mCamera ?s1 = Some camera" using cam by simp
  from releaseQueuedFrames_closed [OF this] assms(2) cam
  have "s' = ?s1\<lparr>mFramesReceived := [],
             mNumFramesDropped := mNumFramesDropped ?s1 + of_nat (length (mFramesReceived ?s1)),
             effects := effects ?s1 @ map Camera_releaseRecordingFrame (mFramesReceived ?s1)\<rparr>"
    by (simp add: stop_enter_def Let_def)
  with assms(1) cam show ?thesis
    by (simp add: accounted_def halted_def)
qed

lemma stop_exit_eq:
  "stop_exit s =
     (if mNumFramesReceived s = mNumFramesEncoded s + mNumFramesDropped s
      then Done (OK, s\<lparr>mCamera := None\<rparr>)
      else Fatal (CHECK_failed ''mNumFramesReceived == mNumFramesEncoded + mNumFramesDropped''))"
  by (simp add: stop_exit_def Let_def)

lemma stop_returned:
  assumes "accounted thr s" and "stop schedule s = Done (status, s')"
  shows "status = OK" and "accounted thr s'" and "halted s'" and "mFramesBeingEncoded s' = []"
    and "mNumFramesReceived s' = mNumFramesEncoded s' + mNumFramesDropped s'"
proof -
  from assms(2) obtain s1 s2 where
    s: "stop_enter s = Done s1" "stop_wait schedule s1 = Done s2" "stop_exit s2 = Done (status, s')"
    by (auto simp: stop_def bind_eq_Done)
  from stop_enter_Done [OF assms(1) s(1)] have "accounted thr s1" "halted s1" by simp_all
  from stop_wait_Done [OF this s(2)]
  have s2: "accounted thr s2" "halted s2" "mFramesBeingEncoded s2 = []" by simp_all
  from s(3) have r: "status = OK" "s' = s2\<lparr>mCamera := None\<rparr>"
    "mNumFramesReceived s2 = mNumFramesEncoded s2 + mNumFramesDropped s2"
    by (auto simp: stop_exit_eq split: if_splits)
  from r show "status = OK" by simp
  from r s2 show "accounted thr s'" by (simp add: accounted_def halted_def)
  from r s2 show "halted s'" by (simp add: halted_def)
  from r s2 show "mFramesBeingEncoded s' = []" by simp
  from r show "mNumFramesReceived s' = mNumFramesEncoded s' + mNumFramesDropped s'" by simp
qed

lemma releaseRecordingFrame_Fatal:
  "releaseRecordingFrame frame s = Fatal e \<Longrightarrow> e = NullDereference"
  by (auto simp: releaseRecordingFrame_def split: option.splits)

lemma dataCallbackTimestamp_Fatal:
  "dataCallbackTimestamp skip ts frame s = Fatal e \<Longrightarrow> e = NullDereference"
  by (auto simp: dataCallbackTimestamp_def releaseOneRecordingFrame_def Let_def bind_def
      split: if_splits outcome.splits dest: releaseRecordingFrame_Fatal)

lemma read_Fatal: "read options s = Fatal e \<Longrightarrow> e = EmptyListDereference"
  by (auto simp: read_def Let_def split: if_splits list.splits)

lemma signalBufferReturned_loop_Fatal:
  "signalBufferReturned_loop seen xs buffer s = Fatal e \<Longrightarrow> e \<in> env_fatal"
  by (induction xs arbitrary: seen)
     (auto simp: env_fatal_def releaseOneRecordingFrame_def bind_def
       split: if_splits outcome.splits dest: releaseRecordingFrame_Fatal)

lemma env_step_Fatal: "env_step ev s = Fatal e \<Longrightarrow> e \<in> env_fatal"
  by (cases ev)
     (auto simp: env_fatal_def signalBufferReturned_def signalBufferReturned_erase_def bind_def
       split: outcome.splits if_splits
       dest: dataCallbackTimestamp_Fatal read_Fatal
             signalBufferReturned_loop_Fatal [unfolded env_fatal_def])

lemma env_run_Fatal: "env_run es s = Fatal e \<Longrightarrow> e \<in> env_fatal"
  by (induction es arbitrary: s)
     (auto simp: bind_def split: outcome.splits dest: env_step_Fatal)

lemma stop_wait_Fatal: "stop_wait schedule s = Fatal e \<Longrightarrow> e \<in> env_fatal"
proof (induction schedule arbitrary: s)
  case Nil
  then show ?case using stop_wait.simps [of "[]" s] by (simp split: if_splits)
next
  case (Cons others schedule)
  then show ?case
    using stop_wait.simps [of "others # schedule" s]
    by (auto split: if_splits outcome.splits dest: env_run_Fatal)
qed

text \<open>
  In a run the check of \<^verbatim>\<open>stop\<close> fails only with a \<^verbatim>\<open>signalBufferReturned\<close> between its
  erase and its count.
\<close>

lemma stop_check_fails_midway:
  assumes "accounted thr s"
    and "stop schedule s =
           Fatal (CHECK_failed ''mNumFramesReceived == mNumFramesEncoded + mNumFramesDropped'')"
  shows "\<exists>s1 s2. stop_enter s = Done s1 \<and> stop_wait schedule s1 = Done s2 \<and>
           mFramesReceived s2 = [] \<and> mFramesBeingEncoded s2 = [] \<and> completing s2 \<noteq> 0"
proof (cases "stop_enter s")
  case (Fatal e)
  then have "e = NullDereference"
    by (cases "mCamera s")
       (auto simp: stop_enter_def Let_def releaseQueuedFrames_closed)
  with Fatal assms(2) show ?thesis by (simp add: stop_def)
next
  case Waiting
  with assms(2) show ?thesis by (simp add: stop_def)
next
  case (Done s1)
  show ?thesis
  proof (cases "stop_wait schedule s1")
    case (Fatal e)
    from stop_wait_Fatal [OF this] Done Fatal assms(2) show ?thesis
      by (auto simp: stop_def env_fatal_def)
  next
    case Waiting
    with Done assms(2) show ?thesis by (simp add: stop_def)
  next
    case s2: (Done s2)
    from stop_enter_Done [OF assms(1) Done] have "accounted thr s1" "halted s1" by simp_all
    from stop_wait_Done [OF this s2]
    have inv: "accounted thr s2" "halted s2" "mFramesBeingEncoded s2 = []" by simp_all
    from Done s2 assms(2)
    have "mNumFramesReceived s2 \<noteq> mNumFramesEncoded s2 + mNumFramesDropped s2"
      by (auto simp: stop_def stop_exit_eq split: if_splits)
    with inv have "(of_nat (completing s2) :: int32_t) \<noteq> 0"
      by (auto simp: accounted_def halted_def)
    then have "completing s2 \<noteq> 0"
      by (cases "completing s2") simp_all
    with Done s2 inv show ?thesis by (simp add: halted_def)
  qed
qed

lemma start_Done:
  assumes "start meta record_stats s = Done (status, s')"
  shows "status = OK \<and> mStarted s' \<and> \<not> mStarted s \<and> mCamera s' = mCamera s \<and> mCamera s \<noteq> None \<and>
         mNumFramesReceived s' = mNumFramesReceived s \<and>
         mNumFramesEncoded s' = mNumFramesEncoded s \<and>
         mNumFramesDropped s' = mNumFramesDropped s \<and>
         mFramesReceived s' = mFramesReceived s \<and>
         mFramesBeingEncoded s' = mFramesBeingEncoded s \<and>
         mGlitchDurationThresholdUs s' = mGlitchDurationThresholdUs s \<and>
         completing s' = completing s"
  using assms
  by (auto simp: start_def Let_def startCameraRecording_def bind_eq_Done
      split: if_splits option.splits)

lemma start_accounted:
  assumes "accounted thr s" and "start meta record_stats s = Done (status, s')"
  shows "accounted thr s'"
  using start_Done [OF assms(2)] assms(1) by (simp add: accounted_def)

lemma step_accounted:
  assumes "accounted thr s" and "step ev s = Done s'"
  shows "accounted thr s'"
proof (cases ev)
  case (Start meta record_stats)
  with assms show ?thesis
    by (auto simp: bind_eq_Done dest: start_accounted)
next
  case (Stop schedule)
  with assms(2) obtain status where st: "stop schedule s = Done (status, s')"
    by (auto simp: bind_eq_Done)
  from stop_returned(2) [OF assms(1) this] show ?thesis .
next
  case (Env e)
  with assms show ?thesis by (auto dest: env_step_accounted)
qed

lemma run_accounted:
  "accounted thr s \<Longrightarrow> run evs s = Done s' \<Longrightarrow> accounted thr s'"
  by (induction evs arbitrary: s) (auto simp: bind_eq_Done dest: step_accounted)

lemma sdiv_bound: "\<bar>(1000000::int) sdiv k\<bar> \<le> 1000000"
proof -
  have "\<bar>k\<bar> = 0 \<or> 1 \<le> \<bar>k\<bar>" by linarith
  then have "(1000000::int) div \<bar>k\<bar> \<le> 1000000"
  proof
    assume "\<bar>k\<bar> = 0" then show ?thesis by simp
  next
    assume "1 \<le> \<bar>k\<bar>"
    then have "(1000000::int) div \<bar>k\<bar> \<le> 1000000 div 1"
      by (intro zdiv_mono2) simp_all
    then show ?thesis by simp
  qed
  moreover have "0 \<le> (1000000::int) div \<bar>k\<bar>"
    by (simp add: div_int_pos_iff)
  ultimately show ?thesis
    by (cases "k = 0"; cases "0 < k") (simp_all add: signed_divide_int_def sgn_if)
qed

lemma sint_glitchDuration:
  fixes r :: int32_t
  shows "sint (word_of_int (1000000 sdiv sint r) :: int64_t) = 1000000 sdiv sint r"
proof -
  have "- (2 ^ 63) \<le> (1000000::int) sdiv sint r" "(1000000::int) sdiv sint r < 2 ^ 63"
    using sdiv_bound [of "sint r"] by simp_all
  then show ?thesis
    by (simp add: sint_sbintrunc' signed_take_bit_int_eq_self)
qed

lemma ctor_Done:
  assumes "CameraSource_ctor camera indeterminate = Done s"
  shows "accounted (mGlitchDurationThresholdUs s) s"
    and "sint (mGlitchDurationThresholdUs s) =
           max 200000 (1000000 sdiv sint (previewFrameRate camera))"
    and "previewFrameRate camera \<noteq> 0"
    and "\<not> mStarted s" and "mCamera s = Some camera"
  using assms sint_glitchDuration [of "previewFrameRate camera"]
  by (auto simp: CameraSource_ctor_def glitchDurationUs_def Let_def accounted_def bind_eq_Done
      word_sless_alt split: if_splits option.splits)

lemma reach_accounted:
  assumes "reach camera indeterminate events = Done s"
  shows "accounted (mGlitchDurationThresholdUs s) s"
    and "sint (mGlitchDurationThresholdUs s) =
           max 200000 (1000000 sdiv sint (previewFrameRate camera))"
proof -
  from assms obtain s0 where s0: "CameraSource_ctor camera indeterminate = Done s0"
    "run events s0 = Done s"
    by (auto simp: reach_def bind_eq_Done)
  from run_accounted [OF ctor_Done(1) [OF s0(1)] s0(2)]
  have a: "accounted (mGlitchDurationThresholdUs s0) s" .
  then have "mGlitchDurationThresholdUs s = mGlitchDurationThresholdUs s0"
    by (simp add: accounted_def)
  with a ctor_Done(2) [OF s0(1)] show "accounted (mGlitchDurationThresholdUs s) s"
    "sint (mGlitchDurationThresholdUs s) =
           max 200000 (1000000 sdiv sint (previewFrameRate camera))"
    by simp_all
qed

section \<open>Evaluating the model\<close>

lemma fresh_constructed: "CameraSource_ctor demo_camera 0 = Done fresh"
  by (simp add: CameraSource_ctor_def demo_camera_def fresh_def glitchDurationUs_def
      signed_divide_int_def word_sless_alt Let_def)

lemmas callback_defs =
  dataCallbackTimestamp_def count_glitch_def queue_frame_def releaseOneRecordingFrame_def
  releaseRecordingFrame_def emit_def Let_def word_sless_alt

lemmas start_defs = start_def startCameraRecording_def findInt64_def emit_def Let_def

lemma stop_wait_Nil:
  "stop_wait [] s = (if mFramesBeingEncoded s = [] then Done s else Waiting)"
  by (subst stop_wait.simps) simp

lemma stop_wait_Cons:
  "stop_wait (others # schedule) s =
     (if mFramesBeingEncoded s = [] then Done s
      else bind (env_run others s) (stop_wait schedule))"
  by (subst stop_wait.simps) (simp add: bind_def)

lemmas stop_defs =
  stop_def stop_enter_def stop_exit_def stop_wait_Nil stop_wait_Cons releaseQueuedFrames.simps
  releaseRecordingFrame_def signalBufferReturned_def signalBufferReturned_erase_def
  signalBufferReturned_count_def releaseOneRecordingFrame_def emit_def Let_def

lemma recording_reached: "reach demo_camera 0 two_frames_one_read = Done recording"
  unfolding reach_def fresh_constructed
  by (simp add: two_frames_one_read_def recording_def fresh_def
      start_defs callback_defs read_def demo_camera_def)

section \<open>The counters at stop\<close>

lemma undisturbed_step:
  assumes "undisturbed e" and "completing s = 0" and "env_step e s = Done s'"
  shows "completing s' = 0"
proof (cases e)
  case (DataCallbackTimestamp ts skip frame)
  with assms(3) have "dataCallbackTimestamp (\<lambda>_. skip) ts frame s = Done s'" by simp
  from dataCallbackTimestamp_Done [OF this] assms(2) show ?thesis
    by (elim disjE conjE exE) auto
next
  case (Read options)
  show ?thesis
  proof (cases "read options s")
    case (Done r)
    obtain status buffer s1 where r: "r = (status, buffer, s1)" by (cases r)
    with Done Read assms(3) have "s1 = s'" by simp
    with read_Done [of options s status buffer s'] Done r assms(2) show ?thesis by auto
  qed (use Read assms in auto)
next
  case (SignalBufferReturned buffer)
  with assms(3) obtain s1 where "signalBufferReturned_erase buffer s = Done s1"
    "s' = signalBufferReturned_count s1"
    by (auto simp: signalBufferReturned_def bind_eq_Done)
  with signalBufferReturned_erase_Done [of buffer s s1] assms(2) show ?thesis
    by (auto simp: signalBufferReturned_count_def)
qed (use assms in auto)

lemma undisturbed_run:
  "list_all undisturbed es \<Longrightarrow> completing s = 0 \<Longrightarrow> env_run es s = Done s' \<Longrightarrow>
   completing s' = 0"
  by (induction es arbitrary: s) (auto simp: bind_eq_Done dest: undisturbed_step)

lemma undisturbed_wait:
  "list_all (list_all undisturbed) schedule \<Longrightarrow> completing s = 0 \<Longrightarrow>
   stop_wait schedule s = Done s' \<Longrightarrow> completing s' = 0"
proof (induction schedule arbitrary: s)
  case Nil
  then show ?case by (simp add: stop_wait_Nil split: if_splits)
next
  case (Cons others schedule)
  then show ?case
    by (auto simp: stop_wait_Cons bind_eq_Done split: if_splits dest: undisturbed_run)
qed

lemma stop_enter_completing:
  assumes "stop_enter s = Done s'"
  shows "completing s' = completing s"
proof -
  from assms obtain camera where cam: "mCamera s = Some camera"
    by (auto simp: stop_enter_def Let_def split: option.splits)
  let ?s1 = "emit Camera_stopRecording (emit (Camera_setListener False)
               (emit FrameAvailable_signal (s\<lparr>mStarted := False\<rparr>)))"
  have "mCamera ?s1 = Some camera" using cam by simp
  from releaseQueuedFrames_closed [OF this] assms cam show ?thesis
    by (auto simp: stop_enter_def Let_def)
qed

text \<open>
  C1. In every run, when \<^verbatim>\<open>stop\<close> returns it returns \<open>OK\<close> with
  \<^verbatim>\<open>mNumFramesReceived\<close> equal to \<^verbatim>\<open>mNumFramesEncoded + mNumFramesDropped\<close>, nothing
  queued and nothing being encoded. The check is made before returning and its failure
  ends the process. In a run the check fails only when \<^verbatim>\<open>stop\<close> finds the list of
  frames being encoded empty while a \<^verbatim>\<open>signalBufferReturned\<close> is between its erase and
  its count; it never fails when no such call is under way as \<^verbatim>\<open>stop\<close> is called
  and none is cut in two while \<^verbatim>\<open>stop\<close> waits. And from any state, when the counters
  do not add up in the state the check is made in, \<^verbatim>\<open>stop\<close> ends in the failed
  \<^verbatim>\<open>CHECK_EQ\<close> instead of returning.
\<close>

theorem stop_counters_balance:
  assumes "reach camera indeterminate events = Done s"
  shows "(case stop schedule s of
            Done (status, s') \<Rightarrow>
              status = OK \<and>
              mNumFramesReceived s' = mNumFramesEncoded s' + mNumFramesDropped s' \<and>
              mFramesReceived s' = [] \<and> mFramesBeingEncoded s' = []
          | Fatal e \<Rightarrow>
              e = CHECK_failed ''mNumFramesReceived == mNumFramesEncoded + mNumFramesDropped'' \<longrightarrow>
              (\<exists>s1 s2. stop_enter s = Done s1 \<and> stop_wait schedule s1 = Done s2 \<and>
                       mFramesReceived s2 = [] \<and> mFramesBeingEncoded s2 = [] \<and>
                       completing s2 \<noteq> 0)
          | Waiting \<Rightarrow> True)
       \<and> (completing s = 0 \<and> list_all (list_all undisturbed) schedule \<longrightarrow>
            stop schedule s \<noteq>
              Fatal (CHECK_failed ''mNumFramesReceived == mNumFramesEncoded + mNumFramesDropped''))
       \<and> (stop_enter t = Done t1 \<and> stop_wait schedule' t1 = Done t2 \<and>
            mNumFramesReceived t2 \<noteq> mNumFramesEncoded t2 + mNumFramesDropped t2 \<longrightarrow>
            stop schedule' t =
              Fatal (CHECK_failed ''mNumFramesReceived == mNumFramesEncoded + mNumFramesDropped''))"
proof (intro conjI impI)
  from reach_accounted(1) [OF assms]
  have acc: "accounted (mGlitchDurationThresholdUs s) s" .
  show "case stop schedule s of
            Done (status, s') \<Rightarrow>
              status = OK \<and>
              mNumFramesReceived s' = mNumFramesEncoded s' + mNumFramesDropped s' \<and>
              mFramesReceived s' = [] \<and> mFramesBeingEncoded s' = []
          | Fatal e \<Rightarrow>
              e = CHECK_failed ''mNumFramesReceived == mNumFramesEncoded + mNumFramesDropped'' \<longrightarrow>
              (\<exists>s1 s2. stop_enter s = Done s1 \<and> stop_wait schedule s1 = Done s2 \<and>
                       mFramesReceived s2 = [] \<and> mFramesBeingEncoded s2 = [] \<and>
                       completing s2 \<noteq> 0)
          | Waiting \<Rightarrow> True"
  proof (cases "stop schedule s")
    case (Fatal e)
    with stop_check_fails_midway [OF acc, of schedule] show ?thesis by simp
  next
    case Waiting
    then show ?thesis by simp
  next
    case (Done r)
    obtain status s' where r: "r = (status, s')" by (cases r)
    from stop_returned [OF acc Done [unfolded r]] Done r show ?thesis
      by (simp add: halted_def)
  qed
  assume u: "completing s = 0 \<and> list_all (list_all undisturbed) schedule"
  show "stop schedule s \<noteq>
          Fatal (CHECK_failed ''mNumFramesReceived == mNumFramesEncoded + mNumFramesDropped'')"
  proof
    assume "stop schedule s =
          Fatal (CHECK_failed ''mNumFramesReceived == mNumFramesEncoded + mNumFramesDropped'')"
    from stop_check_fails_midway [OF acc this] obtain s1 s2 where
      m: "stop_enter s = Done s1" "stop_wait schedule s1 = Done s2" "completing s2 \<noteq> 0"
      by blast
    from stop_enter_completing [OF m(1)] u have "completing s1 = 0" by simp
    from undisturbed_wait [OF _ this m(2)] u m(3) show False by simp
  qed
next
  assume "stop_enter t = Done t1 \<and> stop_wait schedule' t1 = Done t2 \<and>
            mNumFramesReceived t2 \<noteq> mNumFramesEncoded t2 + mNumFramesDropped t2"
  then show "stop schedule' t =
              Fatal (CHECK_failed ''mNumFramesReceived == mNumFramesEncoded + mNumFramesDropped'')"
    by (simp add: stop_def stop_exit_eq)
qed

theorem stop_counters_balance_witness:
  "reach demo_camera 0 two_frames_one_read = Done recording
   \<and> completing recording = 0
   \<and> list_all (list_all undisturbed) [[SignalBufferReturned (buffer_of frame1)]]
   \<and> map_outcome (\<lambda>(status, s'). (status, mNumFramesReceived s', mNumFramesEncoded s',
                                    mNumFramesDropped s', mFramesReceived s',
                                    mFramesBeingEncoded s'))
       (stop [[SignalBufferReturned (buffer_of frame1)]] recording)
       = Done (OK, 2, 1, 1, [], [])
   \<and> map_outcome (\<lambda>(status, s'). (status, mNumFramesReceived s', mNumFramesEncoded s',
                                    mNumFramesDropped s', mFramesReceived s',
                                    mFramesBeingEncoded s'))
       (stop [[SignalBufferReturned_erase (buffer_of frame1), SignalBufferReturned_count]]
          recording)
       = Done (OK, 2, 1, 1, [], [])
   \<and> stop [[SignalBufferReturned_erase (buffer_of frame1)]] recording =
        Fatal (CHECK_failed ''mNumFramesReceived == mNumFramesEncoded + mNumFramesDropped'')
   \<and> map_outcome completing
        (bind (stop_enter recording)
           (stop_wait [[SignalBufferReturned_erase (buffer_of frame1)]])) = Done 1
   \<and> stop_enter miscounted = Done miscounted_halted
   \<and> stop_wait [] miscounted_halted = Done miscounted_halted
   \<and> mNumFramesReceived miscounted_halted
       \<noteq> mNumFramesEncoded miscounted_halted + mNumFramesDropped miscounted_halted
   \<and> stop [] miscounted =
        Fatal (CHECK_failed ''mNumFramesReceived == mNumFramesEncoded + mNumFramesDropped'')"
proof -
  have a: "reach demo_camera 0 two_frames_one_read = Done recording"
    by (rule recording_reached)
  have b: "\<exists>r. stop [[SignalBufferReturned (buffer_of frame1)]] recording = Done r"
    "\<exists>r. stop [[SignalBufferReturned_erase (buffer_of frame1), SignalBufferReturned_count]]
            recording = Done r"
    by (simp_all add: recording_def fresh_def stop_defs buffer_of_def frame1_def frame2_def)
  have b': "mNumFramesReceived recording = 2"
    "map_outcome (\<lambda>(status, s'). (mNumFramesEncoded s', mNumFramesDropped s'))
       (stop [[SignalBufferReturned (buffer_of frame1)]] recording) = Done (1, 1)"
    "map_outcome (\<lambda>(status, s'). (mNumFramesEncoded s', mNumFramesDropped s'))
       (stop [[SignalBufferReturned_erase (buffer_of frame1), SignalBufferReturned_count]]
          recording) = Done (1, 1)"
    by (simp_all add: recording_def fresh_def stop_defs buffer_of_def frame1_def frame2_def)
  have r: "stop [[SignalBufferReturned_erase (buffer_of frame1)]] recording =
        Fatal (CHECK_failed ''mNumFramesReceived == mNumFramesEncoded + mNumFramesDropped'')"
    "map_outcome completing
        (bind (stop_enter recording)
           (stop_wait [[SignalBufferReturned_erase (buffer_of frame1)]])) = Done 1"
    by (simp_all add: recording_def fresh_def stop_defs buffer_of_def frame1_def frame2_def)
  have c: "stop_enter miscounted = Done miscounted_halted"
    by (simp add: miscounted_halted_def miscounted_def fresh_def stop_defs)
  have d: "stop_wait [] miscounted_halted = Done miscounted_halted"
    by (simp add: miscounted_halted_def miscounted_def fresh_def stop_defs)
  have e: "mNumFramesReceived miscounted_halted
       \<noteq> mNumFramesEncoded miscounted_halted + mNumFramesDropped miscounted_halted"
    by (simp add: miscounted_halted_def miscounted_def fresh_def)
  note thm1 = stop_counters_balance
         [OF a, of "[[SignalBufferReturned (buffer_of frame1)]]"
            miscounted miscounted_halted "[]" miscounted_halted]
  note thm2 = stop_counters_balance
         [OF a, of "[[SignalBufferReturned_erase (buffer_of frame1), SignalBufferReturned_count]]"
            miscounted miscounted_halted "[]" miscounted_halted]
  from thm1 c d e
  have f: "stop [] miscounted =
        Fatal (CHECK_failed ''mNumFramesReceived == mNumFramesEncoded + mNumFramesDropped'')"
    by blast
  from thm1 b(1) b'(1,2)
  have g1: "map_outcome (\<lambda>(status, s'). (status, mNumFramesReceived s', mNumFramesEncoded s',
                                    mNumFramesDropped s', mFramesReceived s',
                                    mFramesBeingEncoded s'))
       (stop [[SignalBufferReturned (buffer_of frame1)]] recording)
       = Done (OK, 2, 1, 1, [], [])"
    by (auto split: outcome.splits)
  from thm2 b(2) b'(1,3)
  have g2: "map_outcome (\<lambda>(status, s'). (status, mNumFramesReceived s', mNumFramesEncoded s',
                                    mNumFramesDropped s', mFramesReceived s',
                                    mFramesBeingEncoded s'))
       (stop [[SignalBufferReturned_erase (buffer_of frame1), SignalBufferReturned_count]]
          recording)
       = Done (OK, 2, 1, 1, [], [])"
    by (auto split: outcome.splits)
  have u: "completing recording = 0"
    "list_all (list_all undisturbed) [[SignalBufferReturned (buffer_of frame1)]]"
    by (simp_all add: recording_def fresh_def)
  from a u g1 g2 r c d e f show ?thesis by blast
qed

section \<open>Completion by the consumer\<close>

lemma find_Some_holds: "find P xs = Some x \<Longrightarrow> P x"
  by (induction xs) (auto split: if_splits)

lemma signalBufferReturned_loop_closed:
  "signalBufferReturned_loop seen xs buffer s =
     (case find (\<lambda>f. pointer f = data buffer) xs of
        None \<Rightarrow> Fatal (CHECK_failed ''signalBufferReturned: bogus buffer'')
      | Some it \<Rightarrow>
          bind (releaseOneRecordingFrame it s) (\<lambda>s1.
            Done (s1\<lparr>mFramesBeingEncoded := seen @ remove1 it xs,
                     completing := completing s1 + 1\<rparr>)))"
proof (induction xs arbitrary: seen)
  case Nil
  show ?case by simp
next
  case (Cons x xs)
  show ?case
  proof (cases "pointer x = data buffer")
    case True
    then show ?thesis by simp
  next
    case False
    then have "it \<noteq> x" if "find (\<lambda>f. pointer f = data buffer) xs = Some it" for it
      using find_Some_holds [OF that] by auto
    with False show ?thesis
      by (auto simp: Cons.IH split: option.splits)
  qed
qed

lemma during_stop_accounted:
  assumes "during_stop camera indeterminate events others = Done s"
  shows "accounted (mGlitchDurationThresholdUs s) s"
proof -
  from assms obtain s0 s1 where s: "reach camera indeterminate events = Done s0"
    "stop_enter s0 = Done s1" "env_run others s1 = Done s"
    by (auto simp: during_stop_def bind_eq_Done)
  from reach_accounted(1) [OF s(1)] have "accounted (mGlitchDurationThresholdUs s0) s0" .
  from stop_enter_Done [OF this s(2)] have "accounted (mGlitchDurationThresholdUs s0) s1"
    by simp
  from env_run_accounted [OF this s(3)] have a: "accounted (mGlitchDurationThresholdUs s0) s" .
  then have "mGlitchDurationThresholdUs s = mGlitchDurationThresholdUs s0"
    by (simp add: accounted_def)
  with a show ?thesis by simp
qed

text \<open>
  C3. In every state of a run, in every state inside a \<^verbatim>\<open>stop\<close> that waits for the
  frames being encoded, and in any state at all in which the camera is held, when
  \<^verbatim>\<open>signalBufferReturned\<close> is called with a buffer whose \<^verbatim>\<open>data()\<close> is the
  \<^verbatim>\<open>pointer()\<close> of a frame being encoded, the call returns: the first such entry is
  erased from \<^verbatim>\<open>mFramesBeingEncoded\<close>, that frame is released to the camera once,
  \<^verbatim>\<open>mNumFramesEncoded\<close> grows by one and \<^verbatim>\<open>mFrameCompleteCondition\<close> is signalled;
  nothing else changes. With no such entry the call ends the process in the failed
  \<^verbatim>\<open>CHECK_EQ\<close>.
\<close>

theorem completion_releases_once:
  assumes "reach camera indeterminate events = Done s
         \<or> during_stop camera indeterminate events others = Done s
         \<or> mCamera s \<noteq> None"
  shows "(case find (\<lambda>f. pointer f = data buffer) (mFramesBeingEncoded s) of
            None \<Rightarrow>
              signalBufferReturned buffer s =
                Fatal (CHECK_failed ''signalBufferReturned: bogus buffer'')
          | Some it \<Rightarrow>
              signalBufferReturned buffer s =
                Done (s\<lparr>mFramesBeingEncoded := remove1 it (mFramesBeingEncoded s),
                        mNumFramesEncoded := mNumFramesEncoded s + 1,
                        effects := effects s @ [Camera_releaseRecordingFrame it,
                                                FrameComplete_signal]\<rparr>))
       \<and> (data buffer \<in> pointer ` set (mFramesBeingEncoded s)
            \<longleftrightarrow> find (\<lambda>f. pointer f = data buffer) (mFramesBeingEncoded s) \<noteq> None)"
proof
  show "data buffer \<in> pointer ` set (mFramesBeingEncoded s)
            \<longleftrightarrow> find (\<lambda>f. pointer f = data buffer) (mFramesBeingEncoded s) \<noteq> None"
    by (force simp: find_None_iff image_iff)
  from assms have held: "mFramesBeingEncoded s \<noteq> [] \<longrightarrow> mCamera s \<noteq> None"
    by (auto dest!: reach_accounted(1) during_stop_accounted simp: accounted_def)
  show "case find (\<lambda>f. pointer f = data buffer) (mFramesBeingEncoded s) of
            None \<Rightarrow>
              signalBufferReturned buffer s =
                Fatal (CHECK_failed ''signalBufferReturned: bogus buffer'')
          | Some it \<Rightarrow>
              signalBufferReturned buffer s =
                Done (s\<lparr>mFramesBeingEncoded := remove1 it (mFramesBeingEncoded s),
                        mNumFramesEncoded := mNumFramesEncoded s + 1,
                        effects := effects s @ [Camera_releaseRecordingFrame it,
                                                FrameComplete_signal]\<rparr>)"
  proof (cases "find (\<lambda>f. pointer f = data buffer) (mFramesBeingEncoded s)")
    case None
    then show ?thesis
      by (simp add: signalBufferReturned_def signalBufferReturned_erase_def
          signalBufferReturned_loop_closed)
  next
    case (Some it)
    then have "mFramesBeingEncoded s \<noteq> []" by auto
    with held obtain cam where "mCamera s = Some cam"
      by auto
    with Some show ?thesis
      by (simp add: signalBufferReturned_def signalBufferReturned_erase_def
          signalBufferReturned_count_def signalBufferReturned_loop_closed
          releaseOneRecordingFrame_def releaseRecordingFrame_Some emit_def)
  qed
qed

lemma draining_reached: "during_stop demo_camera 0 two_frames_one_read [] = Done draining"
  unfolding during_stop_def recording_reached
  by (simp add: draining_def recording_def fresh_def stop_defs)

theorem completion_releases_once_witness:
  "reach demo_camera 0 two_frames_one_read = Done recording
   \<and> data (buffer_of frame1) \<in> pointer ` set (mFramesBeingEncoded recording)
   \<and> signalBufferReturned (buffer_of frame1) recording =
       Done (recording\<lparr>mFramesBeingEncoded := [],
                        mNumFramesEncoded := 1,
                        effects := effects recording @ [Camera_releaseRecordingFrame frame1,
                                                        FrameComplete_signal]\<rparr>)
   \<and> data (buffer_of frame3) \<notin> pointer ` set (mFramesBeingEncoded recording)
   \<and> signalBufferReturned (buffer_of frame3) recording =
       Fatal (CHECK_failed ''signalBufferReturned: bogus buffer'')
   \<and> during_stop demo_camera 0 two_frames_one_read [] = Done draining
   \<and> \<not> mStarted draining
   \<and> data (buffer_of frame1) \<in> pointer ` set (mFramesBeingEncoded draining)
   \<and> signalBufferReturned (buffer_of frame1) draining =
       Done (draining\<lparr>mFramesBeingEncoded := [],
                       mNumFramesEncoded := 1,
                       effects := effects draining @ [Camera_releaseRecordingFrame frame1,
                                                       FrameComplete_signal]\<rparr>)
   \<and> mCamera stopped_with_queue \<noteq> None
   \<and> signalBufferReturned (buffer_of frame1) stopped_with_queue =
       Done (stopped_with_queue\<lparr>mFramesBeingEncoded := [],
                       mNumFramesEncoded := 1,
                       effects := effects stopped_with_queue
                                    @ [Camera_releaseRecordingFrame frame1,
                                       FrameComplete_signal]\<rparr>)"
proof -
  have h: "mCamera stopped_with_queue \<noteq> None"
    by (simp add: stopped_with_queue_def recording_def fresh_def)
  from completion_releases_once
         [OF disjI1 [OF recording_reached], of "buffer_of frame1"]
       completion_releases_once
         [OF disjI1 [OF recording_reached], of "buffer_of frame3"]
       completion_releases_once
         [OF disjI2 [OF disjI1 [OF draining_reached]], of "buffer_of frame1"]
       completion_releases_once
         [where buffer = "buffer_of frame1", OF disjI2 [OF disjI2 [OF h]]]
  show ?thesis
    by (simp add: recording_reached draining_reached h)
       (simp add: draining_def stopped_with_queue_def recording_def fresh_def buffer_of_def
          frame1_def frame3_def)
qed

section \<open>The capture callback, case by case\<close>

lemma dataCallbackTimestamp_not_started:
  "\<not> mStarted s \<Longrightarrow> mCamera s = Some camera \<Longrightarrow>
   dataCallbackTimestamp skip ts frame s =
     Done (s\<lparr>mNumFramesReceived := mNumFramesReceived s + 1,
             mNumFramesDropped := mNumFramesDropped s + 1,
             effects := effects s @ [Camera_releaseRecordingFrame frame]\<rparr>)"
  by (simp add: dataCallbackTimestamp_def releaseOneRecordingFrame_def
      releaseRecordingFrame_Some emit_def)

lemma dataCallbackTimestamp_skipped:
  "mStarted s \<Longrightarrow> skip ts \<Longrightarrow> mCamera s = Some camera \<Longrightarrow>
   dataCallbackTimestamp skip ts frame s =
     Done (emit (Camera_releaseRecordingFrame frame) (count_glitch ts s))"
  by (simp add: dataCallbackTimestamp_def releaseOneRecordingFrame_def
      releaseRecordingFrame_Some Let_def)

lemma dataCallbackTimestamp_later_frame:
  "mStarted s \<Longrightarrow> \<not> skip ts \<Longrightarrow> mNumFramesReceived s \<noteq> 0 \<Longrightarrow>
   dataCallbackTimestamp skip ts frame s =
     Done (queue_frame ts frame ((count_glitch ts s)\<lparr>mLastFrameTimestampUs := ts\<rparr>))"
  by (simp add: dataCallbackTimestamp_def Let_def)


lemma started_holds_camera:
  "reach camera indeterminate events = Done s \<Longrightarrow> mStarted s \<Longrightarrow> \<exists>c. mCamera s = Some c"
  using reach_accounted(1) [of camera indeterminate events s]
  by (auto simp: accounted_def)

lemma count_glitch_counts:
  "0 <s mNumFramesReceived s \<Longrightarrow>
   mGlitchDurationThresholdUs s <s ts - mLastFrameTimestampUs s \<Longrightarrow>
   mNumGlitches (count_glitch ts s) = mNumGlitches s + 1"
  by (simp add: count_glitch_def)

lemma started_at_100_reached:
  "reach demo_camera 0 [Start (Some [kKeyTime \<mapsto> Int64 100]) False] = Done started_at_100"
  unfolding reach_def fresh_constructed
  by (simp add: started_at_100_def fresh_def start_defs demo_camera_def)

section \<open>Glitches\<close>

text \<open>
  C6. In every run, for a frame that arrives while the source is started with
  \<^verbatim>\<open>mNumFramesReceived > 0\<close> and whose distance to \<^verbatim>\<open>mLastFrameTimestampUs\<close> exceeds
  \<^verbatim>\<open>mGlitchDurationThresholdUs\<close>, the callback returns with \<^verbatim>\<open>mNumGlitches\<close> one
  higher, and the frame is queued as any other: it is appended to \<^verbatim>\<open>mFramesReceived\<close>
  unless the \<^verbatim>\<open>skipCurrentFrame\<close> hook drops it, and \<^verbatim>\<open>mNumFramesDropped\<close> does not
  change. The threshold is the larger of 200000 us and 1000000 / frameRate us (the
  integer quotient, truncated towards zero).
\<close>

theorem glitch_counted_frame_kept:
  assumes "reach camera indeterminate events = Done s"
    and "mStarted s"
    and "0 <s mNumFramesReceived s"
    and "mGlitchDurationThresholdUs s <s timestampUs - mLastFrameTimestampUs s"
  shows "sint (mGlitchDurationThresholdUs s) =
           max 200000 (1000000 sdiv sint (previewFrameRate camera))
       \<and> (case dataCallbackTimestamp skipCurrentFrame timestampUs frame s of
            Done s' \<Rightarrow>
              mNumGlitches s' = mNumGlitches s + 1 \<and>
              mFramesReceived s' =
                mFramesReceived s @ (if skipCurrentFrame timestampUs then [] else [frame]) \<and>
              mNumFramesDropped s' = mNumFramesDropped s
          | Fatal e \<Rightarrow> False
          | Waiting \<Rightarrow> False)"
proof
  show "sint (mGlitchDurationThresholdUs s) =
           max 200000 (1000000 sdiv sint (previewFrameRate camera))"
    by (rule reach_accounted(2) [OF assms(1)])
  from started_holds_camera [OF assms(1,2)] obtain c where cam: "mCamera s = Some c" ..
  from assms(3) have nz: "mNumFramesReceived s \<noteq> 0" by auto
  show "case dataCallbackTimestamp skipCurrentFrame timestampUs frame s of
            Done s' \<Rightarrow>
              mNumGlitches s' = mNumGlitches s + 1 \<and>
              mFramesReceived s' =
                mFramesReceived s @ (if skipCurrentFrame timestampUs then [] else [frame]) \<and>
              mNumFramesDropped s' = mNumFramesDropped s
          | Fatal e \<Rightarrow> False
          | Waiting \<Rightarrow> False"
  proof (cases "skipCurrentFrame timestampUs")
    case True
    with assms(2-4) cam show ?thesis
      by (simp add: dataCallbackTimestamp_skipped count_glitch_counts)
  next
    case False
    with assms(2-4) nz show ?thesis
      by (simp add: dataCallbackTimestamp_later_frame count_glitch_counts queue_frame_def
          Let_def emit_def)
  qed
qed

theorem glitch_counted_frame_kept_witness:
  "reach demo_camera 0 two_frames_one_read = Done recording
   \<and> mStarted recording
   \<and> 0 <s mNumFramesReceived recording
   \<and> mGlitchDurationThresholdUs recording <s 260000 - mLastFrameTimestampUs recording
   \<and> sint (mGlitchDurationThresholdUs recording) = 200000
   \<and> previewFrameRate demo_camera = 30
   \<and> map_outcome (\<lambda>s'. (mNumGlitches s', mFramesReceived s', mNumFramesDropped s'))
        (dataCallbackTimestamp (\<lambda>_. False) 260000 frame3 recording)
       = Done (1, [frame2, frame3], 0)"
proof -
  have h: "mStarted recording" "0 <s mNumFramesReceived recording"
    "mGlitchDurationThresholdUs recording <s 260000 - mLastFrameTimestampUs recording"
    by (simp_all add: recording_def fresh_def word_sless_alt)
  from glitch_counted_frame_kept [OF recording_reached h, of "\<lambda>_. False" frame3]
  show ?thesis
    using h recording_reached
    by (simp add: recording_def fresh_def demo_camera_def signed_divide_int_def
        split: outcome.splits)
qed

section \<open>Presentation timestamps\<close>




section \<open>Frames dropped by the callback\<close>

text \<open>
  C5. The code at the claim's input: started with the start time 100, a first frame at
  80 is released and not queued, and \<^verbatim>\<open>mLastFrameTimestampUs\<close> (and
  \<^verbatim>\<open>mFirstFrameTimeUs\<close>) goes from 0 to 80.
\<close>

theorem early_frame_moves_last_timestamp:
  "reach demo_camera 0 [Start (Some [kKeyTime \<mapsto> Int64 100]) False] = Done started_at_100
   \<and> mLastFrameTimestampUs started_at_100 = 0
   \<and> dataCallbackTimestamp (\<lambda>_. False) 80 frame1 started_at_100 =
       Done (started_at_100\<lparr>mLastFrameTimestampUs := 80, mFirstFrameTimeUs := 80,
               effects := effects started_at_100 @ [Camera_releaseRecordingFrame frame1]\<rparr>)"
  by (simp add: started_at_100_reached)
     (simp add: started_at_100_def fresh_def callback_defs)

text \<open>
  C8, as stated, fails. A frame the hook drops leaves \<^verbatim>\<open>mNumFramesReceived\<close> as it
  was. And the glitch count is not left alone: the glitch check runs before the hook
  is asked and measures from the last frame that was not dropped, so with frames
  150000 us apart, the first kept and the next two dropped by the hook, a glitch is
  counted, where the same frames without the hook count none.
\<close>

theorem skipped_frame_counter_counterexample:
  "reach demo_camera 0 two_frames_one_read = Done recording
   \<and> mNumFramesReceived recording = 2
   \<and> map_outcome mNumFramesReceived
        (dataCallbackTimestamp (\<lambda>_. True) 60000 frame3 recording) = Done 2
   \<and> map_outcome mNumFramesReceived
        (dataCallbackTimestamp (\<lambda>_. True) 60000 frame3 recording) \<noteq> Done (2 + 1)
   \<and> map_outcome mNumGlitches (reach demo_camera 0 skips_after_first) = Done 1
   \<and> map_outcome mNumGlitches (reach demo_camera 0 same_without_skips) = Done 0"
proof -
  have "map_outcome mNumGlitches (reach demo_camera 0 skips_after_first) = Done 1"
    "map_outcome mNumGlitches (reach demo_camera 0 same_without_skips) = Done 0"
    unfolding reach_def fresh_constructed
    by (simp_all add: skips_after_first_def same_without_skips_def fresh_def
        start_defs callback_defs demo_camera_def)
  then show ?thesis
    by (simp add: recording_reached)
       (simp add: recording_def fresh_def callback_defs)
qed

text \<open>
  C8, amended. In every run, when the hook asks to drop a frame that arrives while the
  source is started, the callback releases the frame and returns; the frame is not
  queued, \<^verbatim>\<open>mNumFramesReceived\<close> is not incremented (nor is \<^verbatim>\<open>mNumFramesDropped\<close> or
  \<^verbatim>\<open>mNumFramesEncoded\<close>), and \<^verbatim>\<open>mLastFrameTimestampUs\<close>, \<^verbatim>\<open>mFirstFrameTimeUs\<close>,
  \<^verbatim>\<open>mStartTimeUs\<close> and the glitch threshold keep their values.
\<close>

theorem skipped_frame_left_out:
  assumes "reach camera indeterminate events = Done s"
    and "mStarted s"
    and "skipCurrentFrame timestampUs"
  shows "(case dataCallbackTimestamp skipCurrentFrame timestampUs frame s of
            Done s' \<Rightarrow>
              mNumFramesReceived s' = mNumFramesReceived s \<and>
              mNumFramesDropped s' = mNumFramesDropped s \<and>
              mNumFramesEncoded s' = mNumFramesEncoded s \<and>
              mFramesReceived s' = mFramesReceived s \<and>
              mFrameTimes s' = mFrameTimes s \<and>
              mFramesBeingEncoded s' = mFramesBeingEncoded s \<and>
              mLastFrameTimestampUs s' = mLastFrameTimestampUs s \<and>
              mFirstFrameTimeUs s' = mFirstFrameTimeUs s \<and>
              mStartTimeUs s' = mStartTimeUs s \<and>
              mGlitchDurationThresholdUs s' = mGlitchDurationThresholdUs s \<and>
              mStarted s' \<and>
              effects s' = effects s @ [Camera_releaseRecordingFrame frame]
          | Fatal e \<Rightarrow> False
          | Waiting \<Rightarrow> False)"
proof -
  from started_holds_camera [OF assms(1,2)] obtain c where "mCamera s = Some c" ..
  with assms(2,3) show ?thesis
    by (simp add: dataCallbackTimestamp_skipped)
qed

theorem skipped_frame_left_out_witness:
  "reach demo_camera 0 two_frames_one_read = Done recording
   \<and> mStarted recording
   \<and> (\<lambda>_. True) (60000 :: int64_t)
   \<and> map_outcome
        (\<lambda>s'. (mNumFramesReceived s', mNumFramesDropped s', mNumFramesEncoded s',
               mFramesReceived s', mFrameTimes s', mFramesBeingEncoded s',
               mLastFrameTimestampUs s', mFirstFrameTimeUs s', mStartTimeUs s',
               mGlitchDurationThresholdUs s', mStarted s', effects s'))
        (dataCallbackTimestamp (\<lambda>_. True) 60000 frame3 recording)
       = Done (2, 0, 0, [frame2], [50000], [frame1], 50000, 0, 0, 200000, True,
               effects recording @ [Camera_releaseRecordingFrame frame3])"
proof -
  have h: "mStarted recording" by (simp add: recording_def)
  from skipped_frame_left_out [OF recording_reached h, of "\<lambda>_. True" 60000 frame3]
  show ?thesis
    by (simp add: recording_reached h split: outcome.splits)
       (simp add: recording_def fresh_def)
qed

text \<open>
  C4. The code at a frame that arrives after \<^verbatim>\<open>stop\<close> has returned: the source is not
  started and \<^verbatim>\<open>mCamera\<close> is NULL, and the callback's release of the frame goes through
  the NULL camera. (While the camera is held, \<open>dataCallbackTimestamp_not_started\<close>
  is what the claim says.)
\<close>

theorem late_frame_after_stop:
  "map_outcome (\<lambda>s. (mStarted s, mCamera s)) (reach demo_camera 0 [Start None False, Stop []])
     = Done (False, None)
   \<and> reach demo_camera 0 start_stop_then_frame = Fatal NullDereference"
  unfolding reach_def fresh_constructed
  by (simp add: start_stop_then_frame_def fresh_def start_defs stop_defs callback_defs
      demo_camera_def)

section \<open>A camera that does not start\<close>

text \<open>
  C7, as stated, fails: with a camera whose \<^verbatim>\<open>startRecording\<close> does not return
  \<open>OK\<close>, \<^verbatim>\<open>start\<close> returns nothing; the \<^verbatim>\<open>CHECK_EQ\<close> ends the process.
\<close>

theorem start_failure_counterexample:
  "bind (CameraSource_ctor broken_camera 0) (start None False) =
     Fatal (CHECK_failed ''OK == mCamera->startRecording()'')"
  by (simp add: CameraSource_ctor_def broken_camera_def demo_camera_def glitchDurationUs_def
      signed_divide_int_def word_sless_alt start_defs)

text \<open>
  C7, amended. When the camera's \<^verbatim>\<open>startRecording\<close> returns a status other than
  \<open>OK\<close>, \<^verbatim>\<open>start\<close> on a source that is not started does not return: the
  \<^verbatim>\<open>CHECK_EQ\<close> on that status fails. Whenever \<^verbatim>\<open>start\<close> returns, it returns \<open>OK\<close>
  with the source started, and the camera's \<^verbatim>\<open>startRecording\<close> returned \<open>OK\<close>.
\<close>

theorem start_failure_is_fatal:
  "(\<not> mStarted s \<and> mCamera s = Some camera \<and> startRecording_status camera \<noteq> OK \<longrightarrow>
      start meta record_stats s = Fatal (CHECK_failed ''OK == mCamera->startRecording()''))
   \<and> (case start meta record_stats s of
         Done (status, s') \<Rightarrow>
           status = OK \<and> mStarted s' \<and>
           (\<exists>camera. mCamera s = Some camera \<and> startRecording_status camera = OK)
       | Fatal e \<Rightarrow> True
       | Waiting \<Rightarrow> False)"
  by (auto simp: start_def Let_def startCameraRecording_def bind_def
      split: outcome.splits option.splits if_splits)

theorem start_failure_is_fatal_witness:
  "CameraSource_ctor broken_camera 0 = Done unstartable
   \<and> \<not> mStarted unstartable \<and> mCamera unstartable = Some broken_camera
   \<and> startRecording_status broken_camera \<noteq> OK
   \<and> start None False unstartable = Fatal (CHECK_failed ''OK == mCamera->startRecording()'')
   \<and> map_outcome (\<lambda>(status, s'). (status, mStarted s')) (start None False fresh)
       = Done (OK, True)"
proof -
  have h: "\<not> mStarted unstartable \<and> mCamera unstartable = Some broken_camera
     \<and> startRecording_status broken_camera \<noteq> OK"
    by (simp add: unstartable_def fresh_def broken_camera_def demo_camera_def)
  have c: "CameraSource_ctor broken_camera 0 = Done unstartable"
    by (simp add: CameraSource_ctor_def broken_camera_def demo_camera_def glitchDurationUs_def
      signed_divide_int_def word_sless_alt unstartable_def fresh_def)
  have d: "\<exists>r. start None False fresh = Done r"
    by (simp add: fresh_def start_defs demo_camera_def)
  from start_failure_is_fatal [of unstartable broken_camera None False]
       start_failure_is_fatal [of fresh demo_camera None False] h c d
  show ?thesis
    by (auto split: outcome.splits)
qed

section \<open>The two lists of the queue\<close>

text \<open>The calls of the capture and consumer threads keep the two lists the same length.\<close>

lemma env_step_keeps_pairs:
  assumes "length (mFrameTimes s) = length (mFramesReceived s)" and "env_step e s = Done s'"
  shows "length (mFrameTimes s') = length (mFramesReceived s')"
proof (cases e)
  case (DataCallbackTimestamp ts skip frame)
  with assms(2) have "dataCallbackTimestamp (\<lambda>_. skip) ts frame s = Done s'" by simp
  from dataCallbackTimestamp_Done [OF this] assms(1) show ?thesis
    by (elim disjE conjE exE) auto
next
  case (Read options)
  show ?thesis
  proof (cases "read options s")
    case (Done r)
    obtain status buffer s1 where r: "r = (status, buffer, s1)" by (cases r)
    with Done Read assms(2) have "s1 = s'" by simp
    with read_Done [of options s status buffer s'] Done r assms(1) show ?thesis by auto
  qed (use Read assms in auto)
next
  case (SignalBufferReturned_erase buffer)
  with assms(2) have "signalBufferReturned_erase buffer s = Done s'" by simp
  from signalBufferReturned_erase_Done [OF this] assms(1) show ?thesis by auto
next
  case SignalBufferReturned_count
  with assms show ?thesis
    by (auto simp: signalBufferReturned_count_def split: if_splits)
next
  case (SignalBufferReturned buffer)
  with assms(2) obtain s1 where "signalBufferReturned_erase buffer s = Done s1"
    "s' = signalBufferReturned_count s1"
    by (auto simp: signalBufferReturned_def bind_eq_Done)
  with signalBufferReturned_erase_Done [of buffer s s1] assms(1) show ?thesis
    by (auto simp: signalBufferReturned_count_def)
qed

text \<open>
  C9. The code at a \<^verbatim>\<open>stop\<close> with one frame queued: before, the frame and its time
  are paired; after, \<^verbatim>\<open>mFramesReceived\<close> is empty and \<^verbatim>\<open>mFrameTimes\<close> still holds the
  time, so the two lists differ in length.
\<close>

theorem stop_leaves_frame_times:
  "map_outcome (\<lambda>s. (mFramesReceived s, mFrameTimes s))
     (reach demo_camera 0 [Start None False, Env (DataCallbackTimestamp 0 False frame1)])
     = Done ([frame1], [0])
   \<and> map_outcome (\<lambda>s. (mFramesReceived s, mFrameTimes s))
       (reach demo_camera 0 one_frame_then_stop) = Done ([], [0])"
  unfolding reach_def fresh_constructed
  by (simp add: one_frame_then_stop_def fresh_def start_defs stop_defs callback_defs
      demo_camera_def)

section \<open>Reading when not started\<close>

text \<open>
  C10, as stated, fails: a \<^verbatim>\<open>read\<close> with a seek request on a source that is not
  started returns \<open>ERROR_UNSUPPORTED\<close>.
\<close>

theorem read_with_seek_counterexample:
  "\<not> mStarted fresh \<and> read (Some seek_to_zero) fresh = Done (ERROR_UNSUPPORTED, None, fresh)"
  by (simp add: read_def seek_to_zero_def fresh_def)

text \<open>
  C10, amended. A \<^verbatim>\<open>read\<close> without a seek request on a source that is not started
  returns \<open>OK\<close> with a NULL buffer and leaves the state as it is, whatever is queued.
\<close>

theorem read_when_not_started:
  assumes "\<not> mStarted s"
    and "options = None \<or> (\<exists>opts. options = Some opts \<and> getSeekTo opts = None)"
  shows "read options s = Done (OK, None, s)"
  using assms by (auto simp: read_def)

theorem read_when_not_started_witness:
  "\<not> mStarted stopped_with_queue
   \<and> mFramesReceived stopped_with_queue = [frame2]
   \<and> read None stopped_with_queue = Done (OK, None, stopped_with_queue)"
proof -
  have h: "\<not> mStarted stopped_with_queue" by (simp add: stopped_with_queue_def)
  from read_when_not_started [OF h, of None] h
  show ?thesis by (simp add: stopped_with_queue_def recording_def)
qed

end
